theory Spec2Isabelle
  imports
    Complex_Main
    "HOL-Library.AList"
    "HOL-Library.Char_ord"
    "HOL-Library.List_Lexorder"
    "HOL-Library.Log_Nat"
begin

section \<open>Python values and text\<close>

text \<open>
  The program is the Python module \<^verbatim>\<open>sneakers_db_build.py\<close>. Its data are JSON
  documents decoded by \<^verbatim>\<open>json.loads\<close>: \<^verbatim>\<open>None\<close>, integers, strings, lists and
  dictionaries. A dictionary keeps its insertion order, so it is an association list
  whose keys are distinct; \<open>map_of\<close> is the lookup, \<open>AList.update\<close> the assignment
  \<^verbatim>\<open>d[k] = v\<close> (in place for a key that is there, at the end for a new one) and
  \<open>AList.delete\<close> the removal done by \<^verbatim>\<open>d.pop(k)\<close>.

  Text is modelled over ASCII: a \<open>string\<close> is a list of 8-bit characters, and
  \<^verbatim>\<open>str.upper\<close>, \<^verbatim>\<open>str.strip\<close> and the regular expression class \<^verbatim>\<open>\d\<close> are given
  their meaning on ASCII text. Floating point numbers and booleans of JSON are outside
  the model.
\<close>

datatype json =
    JNull
  | JInt int
  | JStr string
  | JList "json list"
  | JObj "(string \<times> json) list"

type_synonym pydict = "(string \<times> json) list"

text \<open>The exceptions the modelled code can raise, by class.\<close>

datatype error =
    AssertionError    \<comment> \<open>a failed \<^verbatim>\<open>assert\<close>\<close>
  | TypeError         \<comment> \<open>an operator or builtin applied to a value of the wrong type;
                          also what \<^verbatim>\<open>raise "some text"\<close> raises, see below\<close>
  | AttributeError    \<comment> \<open>a method looked up on a value that has none of this name\<close>
  | KeyError          \<comment> \<open>\<^verbatim>\<open>d[k]\<close> for a key that is not there\<close>
  | IntegrityError    \<comment> \<open>sqlite3: a constraint of the schema is violated\<close>
  | InterfaceError    \<comment> \<open>sqlite3: a parameter of a type that cannot be bound\<close>
  | ZeroDivisionError
  | OverflowError     \<comment> \<open>a quotient too large for a \<^verbatim>\<open>float\<close>\<close>
  | TransportError    \<comment> \<open>requests: the remote call failed\<close>

text \<open>Whitespace as \<^verbatim>\<open>str.strip()\<close> sees it in ASCII: codes 9 to 13, 28 to 32.\<close>

definition is_space :: "char \<Rightarrow> bool" where
  "is_space c = (let n = (of_char c :: nat) in (9 \<le> n \<and> n \<le> 13) \<or> (28 \<le> n \<and> n \<le> 32))"

definition strip :: "string \<Rightarrow> string" where
  "strip s = rev (dropWhile is_space (rev (dropWhile is_space s)))"

text \<open>A text that \<^verbatim>\<open>strip()\<close> leaves as it is: no whitespace at either end.\<close>

definition trimmed :: "string \<Rightarrow> bool" where
  "trimmed t = (t = [] \<or> (\<not> is_space (hd t) \<and> \<not> is_space (last t)))"

definition upper_char :: "char \<Rightarrow> char" where
  "upper_char c =
     (let n = (of_char c :: nat) in if 97 \<le> n \<and> n \<le> 122 then char_of (n - 32) else c)"

definition upper :: "string \<Rightarrow> string" where
  "upper s = map upper_char s"

definition startswith :: "string \<Rightarrow> string \<Rightarrow> bool" where
  "startswith s pre = (take (length pre) s = pre)"

definition endswith :: "string \<Rightarrow> string \<Rightarrow> bool" where
  "endswith s suf = (length suf \<le> length s \<and> drop (length s - length suf) s = suf)"

text \<open>\<^verbatim>\<open>s.rstrip(chars)\<close>: every trailing character that is one of \<open>chars\<close> goes.\<close>

definition rstrip :: "string \<Rightarrow> string \<Rightarrow> string" where
  "rstrip s chars = rev (dropWhile (\<lambda>c. c \<in> set chars) (rev s))"

definition is_digit :: "char \<Rightarrow> bool" where
  "is_digit c = (let n = (of_char c :: nat) in 48 \<le> n \<and> n \<le> 57)"

text \<open>\<^verbatim>\<open>str(n)\<close> for an integer: decimal digits, a minus sign before a negative one.\<close>

definition digit_char :: "nat \<Rightarrow> char" where
  "digit_char d = char_of (48 + d)"

fun digits :: "nat \<Rightarrow> string" where
  "digits n = (if n < 10 then [digit_char n] else digits (n div 10) @ [digit_char (n mod 10)])"

definition str_int :: "int \<Rightarrow> string" where
  "str_int i = (if i < 0 then CHR ''-'' # digits (nat (- i)) else digits (nat i))"

text \<open>
  \<^verbatim>\<open>int(s)\<close> on a run of decimal digits. The program calls it on the text before the
  first \<^verbatim>\<open>-\<close> of a date that has matched the date pattern, which is four digits.
\<close>

definition digit_val :: "char \<Rightarrow> int" where
  "digit_val c = int (of_char c) - 48"

definition int_of_digits :: "string \<Rightarrow> int" where
  "int_of_digits s = foldl (\<lambda>a c. 10 * a + digit_val c) 0 s"

section \<open>The cached remote fetcher: cache keys\<close>

text \<open>
  A value of a querystring is formatted into the file name by an f-string, which is
  \<^verbatim>\<open>str(v)\<close>. The program passes integers (\<^verbatim>\<open>limit\<close>, \<^verbatim>\<open>page\<close>); strings are the
  other values a querystring holds.
\<close>

datatype param = PInt int | PStr string

fun str_param :: "param \<Rightarrow> string" where
  "str_param (PInt i) = str_int i"
| "str_param (PStr s) = s"

text \<open>
  \<^verbatim>\<open>cache_dir / name\<close> of pathlib, on the text of the paths: an absolute \<open>name\<close>
  replaces the directory, any other is appended after a separator.
\<close>

definition path_join :: "string \<Rightarrow> string \<Rightarrow> string" where
  "path_join dir name = (if startswith name ''/'' then name else dir @ ''/'' @ name)"

text \<open>
  \<^verbatim>\<open>Api.cache_path\<close>. The querystring is a dictionary: an association list in
  insertion order. The loop runs over \<^verbatim>\<open>sorted(querystring.keys())\<close> and reads
  \<^verbatim>\<open>querystring[key]\<close>, which is there for each of these keys.
\<close>

definition fname :: "string \<Rightarrow> (string \<times> param) list \<Rightarrow> string list" where
  "fname endpoint querystring =
     endpoint # map (\<lambda>key. ''_'' @ key @ ''_'' @ str_param (the (map_of querystring key)))
                    (sort (map fst querystring))"

definition cache_path :: "string \<Rightarrow> string \<Rightarrow> (string \<times> param) list \<Rightarrow> string" where
  "cache_path cache_dir endpoint querystring =
     path_join cache_dir (concat (fname endpoint querystring) @ ''.json'')"

section \<open>Python builtins on JSON values\<close>

text \<open>Truthiness, as \<^verbatim>\<open>if v:\<close> tests it.\<close>

fun truthy :: "json \<Rightarrow> bool" where
  "truthy JNull = False"
| "truthy (JInt i) = (i \<noteq> 0)"
| "truthy (JStr s) = (s \<noteq> [])"
| "truthy (JList xs) = (xs \<noteq> [])"
| "truthy (JObj kvs) = (kvs \<noteq> [])"

text \<open>\<^verbatim>\<open>d.get(k)\<close> on a dictionary: \<^verbatim>\<open>None\<close> for a key that is not there.\<close>

definition dict_get :: "pydict \<Rightarrow> string \<Rightarrow> json" where
  "dict_get d k = (case map_of d k of None \<Rightarrow> JNull | Some v \<Rightarrow> v)"

text \<open>\<^verbatim>\<open>d.update(other)\<close>.\<close>

definition dict_update :: "pydict \<Rightarrow> pydict \<Rightarrow> pydict" where
  "dict_update d other = fold (\<lambda>(k, v). AList.update k v) other d"

text \<open>\<^verbatim>\<open>v.strip()\<close>: only a string has the method.\<close>

fun py_strip :: "json \<Rightarrow> error + string" where
  "py_strip (JStr s) = Inr (strip s)"
| "py_strip _ = Inl AttributeError"

text \<open>\<^verbatim>\<open>v > 0\<close>: only an integer compares with 0.\<close>

fun py_gt0 :: "json \<Rightarrow> error + bool" where
  "py_gt0 (JInt i) = Inr (0 < i)"
| "py_gt0 _ = Inl TypeError"

fun py_len :: "json \<Rightarrow> error + nat" where
  "py_len (JStr s) = Inr (length s)"
| "py_len (JList xs) = Inr (length xs)"
| "py_len (JObj kvs) = Inr (length kvs)"
| "py_len _ = Inl TypeError"

text \<open>\<^verbatim>\<open>v.keys()\<close> and \<^verbatim>\<open>v.get(k)\<close>: only a dictionary has these methods.\<close>

fun py_keys :: "json \<Rightarrow> error + string list" where
  "py_keys (JObj kvs) = Inr (map fst kvs)"
| "py_keys _ = Inl AttributeError"

fun py_get :: "json \<Rightarrow> string \<Rightarrow> error + json" where
  "py_get (JObj kvs) k = Inr (dict_get kvs k)"
| "py_get _ k = Inl AttributeError"

text \<open>
  \<^verbatim>\<open>v[k]\<close> with a string key: the value in a dictionary, \<^verbatim>\<open>KeyError\<close> when the key
  is not there, \<^verbatim>\<open>TypeError\<close> on any other value.
\<close>

fun py_index :: "json \<Rightarrow> string \<Rightarrow> error + json" where
  "py_index (JObj kvs) k = (case map_of kvs k of None \<Rightarrow> Inl KeyError | Some v \<Rightarrow> Inr v)"
| "py_index _ k = Inl TypeError"

text \<open>
  What a \<^verbatim>\<open>for\<close> loop runs over: the elements of a list, the characters of a string,
  the keys of a dictionary; an integer and \<^verbatim>\<open>None\<close> are not iterable.
\<close>

fun py_iter :: "json \<Rightarrow> error + json list" where
  "py_iter (JList xs) = Inr xs"
| "py_iter (JStr s) = Inr (map (\<lambda>c. JStr [c]) s)"
| "py_iter (JObj kvs) = Inr (map (\<lambda>kv. JStr (fst kv)) kvs)"
| "py_iter _ = Inl TypeError"

section \<open>The database object\<close>

text \<open>
  Logging is an effect of the program: the log is part of the state. An entry is the
  level of the call and the message, kept with its arguments instead of the formatted
  text.
\<close>

datatype level = INFO | ERROR

datatype message =
    Creating_tables                \<comment> \<open>\<^verbatim>\<open>creating sneakers sql table\<close>\<close>
  | Processing_page nat int        \<comment> \<open>\<^verbatim>\<open>Processing page {page} of {last_page_num}\<close>\<close>
  | Page_error nat error           \<comment> \<open>\<^verbatim>\<open>ERROR page={page} error={exc}\<close>\<close>
  | Filling_release_year json      \<comment> \<open>\<^verbatim>\<open>{sku} Filling releaseYear from year found on releaseDate\<close>\<close>
  | Year_mismatch json int string  \<comment> \<open>\<^verbatim>\<open>{sku} releaseYear ({ry}) and releaseDate ({rd}) do not match!\<close>\<close>
  | Inserting_search               \<comment> \<open>\<^verbatim>\<open>INSERTing into search table\<close>\<close>
  | Optimizing_search              \<comment> \<open>\<^verbatim>\<open>optimizing search index\<close>\<close>
  | Saving_database                \<comment> \<open>\<^verbatim>\<open>Saving sneakers database to {dbfile}\<close>\<close>

type_synonym log_entry = "level \<times> message"

text \<open>
  Modelled from the spec: the schema script \<^verbatim>\<open>create_tables.sql\<close> is not among the
  sources. By the spec it declares the tables \<^verbatim>\<open>brands\<close>, \<^verbatim>\<open>genders\<close>,
  \<^verbatim>\<open>sneakers\<close> with \<^verbatim>\<open>sku\<close> as primary key, \<^verbatim>\<open>images_360\<close> and the search table
  \<^verbatim>\<open>sneakers_fts\<close> over brand, name, silhouette, colorway and sku. A row of
  \<^verbatim>\<open>sneakers\<close> is the dictionary of the columns it sets.
\<close>

record tables =
  t_brands :: "string list"
  t_genders :: "string list"
  t_sneakers :: "pydict list"
  t_images_360 :: "(json \<times> nat \<times> json) list"
  t_sneakers_fts :: "(json \<times> json \<times> json \<times> json \<times> json) list"

definition empty_tables :: tables where
  "empty_tables = \<lparr>t_brands = [], t_genders = [], t_sneakers = [], t_images_360 = [],
     t_sneakers_fts = []\<rparr>"

text \<open>
  The \<^verbatim>\<open>Database\<close> object and what it acts on. \<open>conn\<close> is the in-memory database as
  the one connection sees it, rows of an open transaction included; \<open>durable\<close> is its
  content as of the last \<^verbatim>\<open>commit()\<close>. The sqlite3 module opens a transaction before
  an \<^verbatim>\<open>INSERT\<close> and ends it only at \<^verbatim>\<open>commit()\<close>; the program never rolls back.
  \<open>saved\<close> is the file \<^verbatim>\<open>sneakers.db\<close> once \<^verbatim>\<open>savedb\<close> has written it.
  \<open>api_calls\<close> is the trace of the calls \<^verbatim>\<open>self.api.sneakers(limit=..., page=...)\<close> made
  so far, each with its limit and its page: fetching a page is an effect, and the trace
  is where it shows.
\<close>

record database =
  brands :: "string list"
  genders :: "string list"
  page_limit :: int
  conn :: tables
  durable :: tables
  saved :: "tables option"
  logs :: "log_entry list"
  api_calls :: "(int \<times> nat) list"

text \<open>\<^verbatim>\<open>Database.__init__\<close>.\<close>

definition init_database :: database where
  "init_database = \<lparr>brands = [], genders = [], page_limit = 100, conn = empty_tables,
     durable = empty_tables, saved = None, logs = [], api_calls = []\<rparr>"

definition logging :: "level \<Rightarrow> message \<Rightarrow> database \<Rightarrow> database" where
  "logging lvl msg db = db\<lparr>logs := logs db @ [(lvl, msg)]\<rparr>"

definition commit :: "database \<Rightarrow> database" where
  "commit db = db\<lparr>durable := conn db\<rparr>"

definition note_call :: "int \<Rightarrow> nat \<Rightarrow> database \<Rightarrow> database" where
  "note_call limit page db = db\<lparr>api_calls := api_calls db @ [(limit, page)]\<rparr>"

text \<open>
  The remote provider, as the answers its three calls get. \<^verbatim>\<open>Api.sneakers\<close> is
  memoised (\<^verbatim>\<open>functools.cache\<close>, and the JSON files under the cache directory), so a
  call that has succeeded answers the same from then on; the program asks for page 0
  twice and for every other page once. The answers have the types of the provider's
  interface: a list of strings, or a count and a list of records. The line
  \<^verbatim>\<open>cache hit\<close> that \<^verbatim>\<open>Api.call\<close> logs is not part of the modelled log.
\<close>

record sneakers_page =
  count :: int
  results :: "pydict list"

record api =
  api_brands :: "error + string list"
  api_genders :: "error + string list"
  api_sneakers :: "int \<Rightarrow> nat \<Rightarrow> error + sneakers_page"

section \<open>The record normalizer\<close>

text \<open>
  Lines 301 to 304 of \<^verbatim>\<open>get_basically_sanitized_sneaker_data\<close>, on the stripped value
  of the key \<^verbatim>\<open>gender\<close>; \<open>normalize_gender\<close> is the whole of what happens to that
  value, the \<^verbatim>\<open>strip()\<close> of line 299 included.
\<close>

definition gender_value :: "string \<Rightarrow> string" where
  "gender_value v0 = (let v = upper v0 in if endswith v ''MENS'' then rstrip v ''S'' else v)"

definition normalize_gender :: "string \<Rightarrow> string" where
  "normalize_gender s = gender_value (strip s)"

text \<open>
  The loop of \<^verbatim>\<open>get_basically_sanitized_sneaker_data\<close> over \<^verbatim>\<open>sneaker.items()\<close>, with
  the dictionary \<open>data\<close> built so far. The two statements \<^verbatim>\<open>raise "API gave us an
  unknown gender"\<close> and \<^verbatim>\<open>raise "API gave us an unknown brand"\<close> raise a string, which
  is no exception: Python 3 raises \<^verbatim>\<open>TypeError\<close> (exceptions must derive from
  BaseException) at both.
\<close>

fun sanitize_items :: "string list \<Rightarrow> string list \<Rightarrow> pydict \<Rightarrow> pydict \<Rightarrow> error + pydict" where
  "sanitize_items gs bs [] data = Inr data"
| "sanitize_items gs bs ((key, val) # items) data =
     (if key \<in> set [''releaseYear'', ''estimatedMarketValue'', ''retailPrice''] then
        (case py_gt0 val of
           Inl e \<Rightarrow> Inl e
         | Inr positive \<Rightarrow>
             sanitize_items gs bs items (if positive then AList.update key val data else data))
      else
        (case py_strip val of
           Inl e \<Rightarrow> Inl e
         | Inr v0 \<Rightarrow>
             (let v1 = (if key = ''gender'' then gender_value v0 else v0) in
              if key = ''gender'' \<and> v1 \<notin> set gs then Inl TypeError
              else
                (let v2 = (if key = ''brand'' then upper v1 else v1) in
                 if key = ''brand'' \<and> v2 \<notin> set bs then Inl TypeError
                 else sanitize_items gs bs items (AList.update key (JStr v2) data)))))"

definition get_basically_sanitized_sneaker_data :: "database \<Rightarrow> pydict \<Rightarrow> error + pydict" where
  "get_basically_sanitized_sneaker_data db sneaker =
     sanitize_items (genders db) (brands db) sneaker []"

text \<open>
  \<^verbatim>\<open>re.match(r"^\d\d\d\d-\d\d-\d\d$", rd)\<close>. The text it is applied to has been
  stripped, so it has no final newline for \<^verbatim>\<open>$\<close> to match before.
\<close>

definition match_date :: "string \<Rightarrow> bool" where
  "match_date rd =
     (length rd = 10 \<and> list_all is_digit (take 4 rd) \<and> rd ! 4 = CHR ''-'' \<and>
      list_all is_digit (take 2 (drop 5 rd)) \<and> rd ! 7 = CHR ''-'' \<and>
      list_all is_digit (take 2 (drop 8 rd)))"

text \<open>
  \<^verbatim>\<open>fix_date_and_year_in_sneaker_data\<close>. It changes \<open>data\<close> in place and logs; the
  model returns the new dictionary and the entries logged. Every exception it can
  raise comes before its first logging call. \<open>JNull\<close> stands for \<^verbatim>\<open>None\<close>, the
  default of \<^verbatim>\<open>data.pop("releaseYear", None)\<close>.
\<close>

definition fix_date_and_year_in_sneaker_data :: "pydict \<Rightarrow> error + pydict \<times> log_entry list" where
  "fix_date_and_year_in_sneaker_data data =
     (case py_strip (case map_of data ''releaseDate'' of None \<Rightarrow> JStr [] | Some v \<Rightarrow> v) of
        Inl e \<Rightarrow> Inl e
      | Inr rd0 \<Rightarrow>
         (let data1 = AList.delete ''releaseDate'' data;
              ry0 = dict_get data1 ''releaseYear'';
              data2 = AList.delete ''releaseYear'' data1;
              sku = dict_get data2 ''sku'';
              checked =
                (if rd0 \<noteq> [] \<and> rd0 \<noteq> ''0001-01-01'' then
                   (if \<not> match_date rd0 then Inl AssertionError
                    else
                      (let rd = (if startswith rd0 ''00'' then ''20'' @ drop 2 rd0 else rd0);
                           potential_year = int_of_digits (takeWhile (\<lambda>c. c \<noteq> CHR ''-'') rd)
                       in if ry0 = JNull \<or> ry0 = JInt 0 then
                            Inr (rd, JInt potential_year, [(INFO, Filling_release_year sku)])
                          else
                            (case ry0 of
                               JInt y \<Rightarrow>
                                 (let ry = (if y < 99 then y + 2000 else y) in
                                  Inr (rd, JInt ry,
                                       if ry \<noteq> potential_year
                                       then [(ERROR, Year_mismatch sku ry rd)] else []))
                             | _ \<Rightarrow> Inl TypeError)))
                 else Inr (rd0, ry0, []))
          in case checked of
               Inl e \<Rightarrow> Inl e
             | Inr (rd, ry, entries) \<Rightarrow>
                 (let data3 = (if rd \<noteq> [] then AList.update ''releaseDate'' (JStr rd) data2
                               else data2);
                      data4 = (if truthy ry then AList.update ''releaseYear'' ry data3 else data3)
                  in Inr (data4, entries))))"

text \<open>
  \<^verbatim>\<open>sqlize_sneakers_images_fields\<close> and \<^verbatim>\<open>sqlize_sneakers_links_fields\<close> are the same
  dictionary comprehension over a fixed list of keys, with another prefix.
\<close>

fun sqlize_fields :: "string \<Rightarrow> string list \<Rightarrow> json \<Rightarrow> error + pydict" where
  "sqlize_fields prefix [] d = Inr []"
| "sqlize_fields prefix (k # ks) d =
     (case py_get d k of
        Inl e \<Rightarrow> Inl e
      | Inr v \<Rightarrow>
         (case py_strip v of
            Inl e \<Rightarrow> Inl e
          | Inr s \<Rightarrow>
             (case sqlize_fields prefix ks d of
                Inl e \<Rightarrow> Inl e
              | Inr others \<Rightarrow> Inr (if s \<noteq> [] then (prefix @ k, JStr s) # others else others))))"

definition sqlize_sneakers_links_fields :: "json \<Rightarrow> error + pydict" where
  "sqlize_sneakers_links_fields links =
     sqlize_fields ''link_'' [''flightClub'', ''goat'', ''stadiumGoods'', ''stockX''] links"

definition sqlize_sneakers_images_fields :: "json \<Rightarrow> error + pydict" where
  "sqlize_sneakers_images_fields images =
     sqlize_fields ''image_'' [''original'', ''small'', ''thumbnail''] images"

definition sneaker_keys :: "string list" where
  "sneaker_keys = [''brand'', ''gender'', ''estimatedMarketValue'', ''releaseYear'', ''story'',
     ''id'', ''colorway'', ''silhouette'', ''sku'', ''image'', ''retailPrice'', ''links'',
     ''name'', ''releaseDate'']"

definition assert_sneaker_keys :: "pydict \<Rightarrow> error + unit" where
  "assert_sneaker_keys sneaker =
     (if set (map fst sneaker) \<noteq> set sneaker_keys then Inl AssertionError
      else
        (case py_keys (dict_get sneaker ''image'') of
           Inl e \<Rightarrow> Inl e
         | Inr image_keys \<Rightarrow>
            (if set image_keys \<noteq> set [''360'', ''original'', ''small'', ''thumbnail'']
             then Inl AssertionError
             else
               (case py_keys (dict_get sneaker ''links'') of
                  Inl e \<Rightarrow> Inl e
                | Inr links_keys \<Rightarrow>
                   (if set links_keys \<noteq> set [''flightClub'', ''goat'', ''stadiumGoods'', ''stockX'']
                    then Inl AssertionError
                    else Inr ())))))"

section \<open>The store builder: inserting one record\<close>

text \<open>The values sqlite3 binds to a parameter: \<^verbatim>\<open>None\<close>, integers and strings.\<close>

fun bindable :: "json \<Rightarrow> bool" where
  "bindable JNull = True"
| "bindable (JInt i) = True"
| "bindable (JStr s) = True"
| "bindable _ = False"

text \<open>
  \<^verbatim>\<open>cursor.execute("INSERT INTO sneakers ...", data)\<close>. The primary key of the
  schema refuses a second row with the same \<^verbatim>\<open>sku\<close>; a refused statement leaves the
  table as it was.
\<close>

definition execute_insert_sneaker :: "pydict \<Rightarrow> tables \<Rightarrow> error + tables" where
  "execute_insert_sneaker data t =
     (if \<not> list_all bindable (map snd data) then Inl InterfaceError
      else
        (case map_of data ''sku'' of
           None \<Rightarrow> Inr (t\<lparr>t_sneakers := t_sneakers t @ [data]\<rparr>)
         | Some sku \<Rightarrow>
            (if Some sku \<in> set (map (\<lambda>row. map_of row ''sku'') (t_sneakers t))
             then Inl IntegrityError
             else Inr (t\<lparr>t_sneakers := t_sneakers t @ [data]\<rparr>))))"

text \<open>The loop of \<^verbatim>\<open>insert_360_images\<close> over \<^verbatim>\<open>enumerate(images["360"])\<close>.\<close>

fun insert_images :: "json \<Rightarrow> nat \<Rightarrow> json list \<Rightarrow> tables \<Rightarrow> error option \<times> tables" where
  "insert_images sku pos [] t = (None, t)"
| "insert_images sku pos (img # imgs) t =
     (if \<not> (bindable sku \<and> bindable img) then (Some InterfaceError, t)
      else insert_images sku (Suc pos) imgs (t\<lparr>t_images_360 := t_images_360 t @ [(sku, pos, img)]\<rparr>))"

definition insert_360_images :: "json \<Rightarrow> json \<Rightarrow> tables \<Rightarrow> error option \<times> tables" where
  "insert_360_images sku images t =
     (case py_index images ''360'' of
        Inl e \<Rightarrow> (Some e, t)
      | Inr imgs360 \<Rightarrow>
         (if truthy imgs360 then
            (case py_iter imgs360 of
               Inl e \<Rightarrow> (Some e, t)
             | Inr imgs \<Rightarrow> insert_images sku 0 imgs t)
          else (None, t)))"

text \<open>
  \<^verbatim>\<open>insert_sneaker\<close>. The result is the exception that leaves the method, if any, and
  the state it leaves behind. The method pops keys from the dictionary it is given;
  each record is processed once, so the model works on a copy.
\<close>

definition insert_sneaker :: "pydict \<Rightarrow> database \<Rightarrow> error option \<times> database" where
  "insert_sneaker sneaker db =
     (case assert_sneaker_keys sneaker of
        Inl e \<Rightarrow> (Some e, db)
      | Inr _ \<Rightarrow>
         (let sneaker1 = AList.delete ''id'' sneaker;
              sku = dict_get sneaker1 ''sku''
          in case py_len sku of
               Inl e \<Rightarrow> (Some e, db)
             | Inr n \<Rightarrow>
                (if \<not> 0 < n then (Some AssertionError, db)
                 else
                   (let images = dict_get sneaker1 ''image'';
                        sneaker2 = AList.delete ''image'' sneaker1;
                        links = dict_get sneaker2 ''links'';
                        sneaker3 = AList.delete ''links'' sneaker2
                    in case get_basically_sanitized_sneaker_data db sneaker3 of
                         Inl e \<Rightarrow> (Some e, db)
                       | Inr data \<Rightarrow>
                          (case fix_date_and_year_in_sneaker_data data of
                             Inl e \<Rightarrow> (Some e, db)
                           | Inr (data1, entries) \<Rightarrow>
                              (let db1 = db\<lparr>logs := logs db @ entries\<rparr>
                               in case sqlize_sneakers_images_fields images of
                                    Inl e \<Rightarrow> (Some e, db1)
                                  | Inr image_fields \<Rightarrow>
                                     (case sqlize_sneakers_links_fields links of
                                        Inl e \<Rightarrow> (Some e, db1)
                                      | Inr link_fields \<Rightarrow>
                                         (let data2 = dict_update (dict_update data1 image_fields)
                                                        link_fields
                                          in case execute_insert_sneaker data2 (conn db1) of
                                               Inl e \<Rightarrow> (Some e, db1)
                                             | Inr t \<Rightarrow>
                                                (case insert_360_images sku images t of
                                                   (exc, t') \<Rightarrow> (exc, db1\<lparr>conn := t'\<rparr>))))))))))"

section \<open>The pagination driver\<close>

text \<open>The loop of \<^verbatim>\<open>load_sneakers_page\<close> over \<^verbatim>\<open>data["results"]\<close>.\<close>

fun insert_sneakers :: "pydict list \<Rightarrow> database \<Rightarrow> error option \<times> database" where
  "insert_sneakers [] db = (None, db)"
| "insert_sneakers (sneaker # sneakers) db =
     (case insert_sneaker sneaker db of
        (Some e, db') \<Rightarrow> (Some e, db')
      | (None, db') \<Rightarrow> insert_sneakers sneakers db')"

definition load_sneakers_page :: "api \<Rightarrow> nat \<Rightarrow> database \<Rightarrow> error option \<times> database" where
  "load_sneakers_page a page db =
     (let db0 = note_call (page_limit db) page db
      in case api_sneakers a (page_limit db) page of
           Inl e \<Rightarrow> (Some e, db0)
         | Inr data \<Rightarrow>
            (case insert_sneakers (results data) db0 of
               (Some e, db') \<Rightarrow> (Some e, db')
             | (None, db') \<Rightarrow> (None, commit db')))"

text \<open>
  The loop of \<^verbatim>\<open>load_sneakers_safely\<close> over the pages still to do. \<^verbatim>\<open>except
  Exception\<close> catches every exception of the model.
\<close>

fun load_pages :: "api \<Rightarrow> int \<Rightarrow> nat list \<Rightarrow> database \<Rightarrow> database" where
  "load_pages a last_page_num [] db = db"
| "load_pages a last_page_num (page # pages) db =
     (case load_sneakers_page a page (logging INFO (Processing_page page last_page_num) db) of
        (None, db') \<Rightarrow> load_pages a last_page_num pages db'
      | (Some exc, db') \<Rightarrow>
          load_pages a last_page_num pages (logging ERROR (Page_error page exc) db'))"

text \<open>\<^verbatim>\<open>range(last_page_num + 1)\<close>: empty when \<open>last_page_num\<close> is negative.\<close>

definition page_range :: "int \<Rightarrow> nat list" where
  "page_range last_page_num = [0 ..< nat (last_page_num + 1)]"

definition load_sneakers_safely :: "api \<Rightarrow> int \<Rightarrow> database \<Rightarrow> database" where
  "load_sneakers_safely a last_page_num db = load_pages a last_page_num (page_range last_page_num) db"

text \<open>
  \<^verbatim>\<open>count / self.page_limit\<close> is Python's true division of two integers: the exact
  quotient rounded to the nearest binary64 number, ties to even, subnormal results
  included; \<^verbatim>\<open>ZeroDivisionError\<close> for a zero divisor and \<^verbatim>\<open>OverflowError\<close> when the
  rounded quotient is out of range. A finite binary64 number is a rational number, and
  the model keeps it as one.

  \<open>round_half_even\<close> rounds to the nearest integer, ties to even. \<open>ilog2 a b\<close> is the
  binary exponent of \<open>a / b\<close> for positive \<open>a\<close> and \<open>b\<close>: the difference of the bit
  lengths, or one less. A binary64 number of exponent \<open>e\<close> is a multiple of
  \<open>2 powi (e - 52)\<close>, and no exponent is below -1022.
\<close>

definition round_half_even :: "rat \<Rightarrow> int" where
  "round_half_even x =
     (let n = \<lfloor>x\<rfloor>; r = x - of_int n
      in if r < 1 / 2 then n else if 1 / 2 < r then n + 1 else if even n then n else n + 1)"

definition ilog2 :: "int \<Rightarrow> int \<Rightarrow> int" where
  "ilog2 a b =
     (let d = bitlen a - bitlen b
      in if (2 :: rat) powi d \<le> of_int a / of_int b then d else d - 1)"

definition round_binary64 :: "int \<Rightarrow> int \<Rightarrow> rat" where
  "round_binary64 a b =
     (if a = 0 then 0
      else
        (let q = of_int a / of_int b;
             e = max (ilog2 \<bar>a\<bar> \<bar>b\<bar>) (- 1022);
             ulp = 2 powi (e - 52)
         in ulp * of_int (round_half_even (q / ulp))))"

definition true_divide :: "int \<Rightarrow> int \<Rightarrow> error + rat" where
  "true_divide a b =
     (if b = 0 then Inl ZeroDivisionError
      else
        (let x = round_binary64 a b
         in if of_int (2 ^ 1024) \<le> \<bar>x\<bar> then Inl OverflowError else Inr x))"

text \<open>
  \<^verbatim>\<open>load_sneakers\<close>, with \<^verbatim>\<open>concurrency = 1\<close> as the source sets it: the sequential
  branch. \<^verbatim>\<open>math.ceil\<close> of a \<^verbatim>\<open>float\<close> is the exact ceiling of its value.
\<close>

definition load_sneakers :: "api \<Rightarrow> database \<Rightarrow> error option \<times> database" where
  "load_sneakers a db =
     (let db0 = note_call (page_limit db) 0 db
      in case api_sneakers a (page_limit db) 0 of
           Inl e \<Rightarrow> (Some e, db0)
         | Inr first_page \<Rightarrow>
            (case true_divide (count first_page) (page_limit db) of
               Inl e \<Rightarrow> (Some e, db0)
             | Inr x \<Rightarrow>
                (let last_page_num = \<lceil>x\<rceil> - 1
                 in (None, load_sneakers_safely a last_page_num db0))))"

section \<open>The whole run\<close>

definition create_tables :: "database \<Rightarrow> database" where
  "create_tables db = (logging INFO Creating_tables db)\<lparr>conn := empty_tables\<rparr>"

definition insert_brands :: "api \<Rightarrow> database \<Rightarrow> error option \<times> database" where
  "insert_brands a db =
     (case api_brands a of
        Inl e \<Rightarrow> (Some e, db)
      | Inr rs \<Rightarrow>
         (let db1 = db\<lparr>brands := sort rs\<rparr>
          in (None, commit (db1\<lparr>conn := (conn db1)\<lparr>t_brands := t_brands (conn db1) @ sort rs\<rparr>\<rparr>))))"

definition insert_genders :: "api \<Rightarrow> database \<Rightarrow> error option \<times> database" where
  "insert_genders a db =
     (case api_genders a of
        Inl e \<Rightarrow> (Some e, db)
      | Inr rs \<Rightarrow>
         (let db1 = db\<lparr>genders := sort rs\<rparr>;
              rows = filter (\<lambda>gender. gender \<notin> set [''MENS'', ''WOMENS'']) (sort rs)
          in (None, commit (db1\<lparr>conn := (conn db1)\<lparr>t_genders := t_genders (conn db1) @ rows\<rparr>\<rparr>))))"

definition fts_row :: "pydict \<Rightarrow> json \<times> json \<times> json \<times> json \<times> json" where
  "fts_row row = (dict_get row ''brand'', dict_get row ''name'', dict_get row ''silhouette'',
     dict_get row ''colorway'', dict_get row ''sku'')"

definition load_fts :: "database \<Rightarrow> database" where
  "load_fts db =
     (let db1 = logging INFO Inserting_search db;
          t = conn db1;
          db2 = db1\<lparr>conn := t\<lparr>t_sneakers_fts := t_sneakers_fts t @ map fts_row (t_sneakers t)\<rparr>\<rparr>
      in commit (logging INFO Optimizing_search db2))"

definition savedb :: "database \<Rightarrow> database" where
  "savedb db = (logging INFO Saving_database db)\<lparr>saved := Some (durable db)\<rparr>"

text \<open>\<^verbatim>\<open>process\<close>: an exception of a step leaves the run, and the later steps do not happen.\<close>

definition process :: "api \<Rightarrow> database \<Rightarrow> error option \<times> database" where
  "process a db =
     (case insert_brands a (create_tables db) of
        (Some e, db1) \<Rightarrow> (Some e, db1)
      | (None, db1) \<Rightarrow>
         (case insert_genders a db1 of
            (Some e, db2) \<Rightarrow> (Some e, db2)
          | (None, db2) \<Rightarrow>
             (case load_sneakers a db2 of
                (Some e, db3) \<Rightarrow> (Some e, db3)
              | (None, db3) \<Rightarrow> (None, savedb (load_fts db3)))))"

text \<open>
  What the specification says of one page, as a step of its own: the page is announced
  and fetched; each of its records goes through the normalizer and the store builder,
  in order, and the page is committed; a failure of the fetch or of a record is caught
  and logged with the page number and the cause, and the run goes on. It is built from
  the provider, \<open>insert_sneakers\<close>, \<open>commit\<close> and \<open>logging\<close> only.
\<close>

definition process_page_spec :: "api \<Rightarrow> int \<Rightarrow> database \<Rightarrow> nat \<Rightarrow> database" where
  "process_page_spec a last_page db page =
     (let db0 = note_call (page_limit db) page (logging INFO (Processing_page page last_page) db)
      in case api_sneakers a (page_limit db) page of
           Inl e \<Rightarrow> logging ERROR (Page_error page e) db0
         | Inr data \<Rightarrow>
            (case insert_sneakers (results data) db0 of
               (None, db1) \<Rightarrow> commit db1
             | (Some e, db1) \<Rightarrow> logging ERROR (Page_error page e) db1))"

text \<open>The pages announced in a log, in order: the \<^verbatim>\<open>Processing page\<close> entries.\<close>

fun processed_pages :: "log_entry list \<Rightarrow> nat list" where
  "processed_pages [] = []"
| "processed_pages ((lvl, Processing_page page last_page_num) # entries) =
     page # processed_pages entries"
| "processed_pages (entry # entries) = processed_pages entries"

section \<open>Example inputs\<close>

text \<open>
  A catalog record with every key of the schema, a database whose reference sets are
  loaded, a provider whose only page holds a good record followed by one of unknown
  gender, and a provider that reports \<open>n\<close> records and returns empty pages. Then the
  record with another release year, and a provider that reports 250 records and
  answers every page with one record whose \<^verbatim>\<open>sku\<close> names the page.
\<close>

definition example_record :: "string \<Rightarrow> string \<Rightarrow> string \<Rightarrow> int \<Rightarrow> int \<Rightarrow> pydict" where
  "example_record sku brand gender market_value retail_price =
     [(''id'', JStr ''0a1b''), (''brand'', JStr brand), (''gender'', JStr gender),
      (''estimatedMarketValue'', JInt market_value), (''releaseYear'', JInt 15),
      (''story'', JStr []), (''colorway'', JStr ''Red''), (''silhouette'', JStr ''Air''),
      (''sku'', JStr sku),
      (''image'', JObj [(''360'', JList []), (''original'', JStr ''http://img/o.png''),
         (''small'', JStr []), (''thumbnail'', JStr [])]),
      (''retailPrice'', JInt retail_price),
      (''links'', JObj [(''flightClub'', JStr []), (''goat'', JStr []),
         (''stadiumGoods'', JStr []), (''stockX'', JStr [])]),
      (''name'', JStr ''Air One''), (''releaseDate'', JStr ''2015-03-01'')]"

definition example_database :: database where
  "example_database = init_database\<lparr>brands := [''NIKE''], genders := [''MEN'', ''WOMEN'']\<rparr>"

definition failing_api :: api where
  "failing_api = \<lparr>api_brands = Inr [''NIKE''], api_genders = Inr [''MEN'', ''WOMEN''],
     api_sneakers = (\<lambda>limit page.
       if page = 0
       then Inr \<lparr>count = 2, results = [example_record ''A1'' ''Nike'' ''mens'' 120 100,
                                        example_record ''B2'' ''Nike'' ''alien'' 120 100]\<rparr>
       else Inl TransportError)\<rparr>"


definition example_record_of_year :: "int \<Rightarrow> pydict" where
  "example_record_of_year y =
     AList.update ''releaseYear'' (JInt y) (example_record ''A1'' ''Nike'' ''mens'' 120 100)"


section \<open>Properties of the cache key\<close>

declare digits.simps [simp del]

lemma of_char_digit_char: "d < 10 \<Longrightarrow> (of_char (digit_char d) :: nat) = 48 + d"
  by (simp add: digit_char_def)

lemma is_digit_digit_char: "d < 10 \<Longrightarrow> is_digit (digit_char d)"
  by (simp add: is_digit_def of_char_digit_char)

lemma digit_val_digit_char: "d < 10 \<Longrightarrow> digit_val (digit_char d) = int d"
  by (simp add: digit_val_def of_char_digit_char)

lemma digits_all_digit: "c \<in> set (digits n) \<Longrightarrow> is_digit c"
proof (induction n arbitrary: c rule: digits.induct)
  case (1 n)
  show ?case
  proof (cases "n < 10")
    case True
    with "1.prems" show ?thesis
      by (simp add: digits.simps [of n] is_digit_digit_char)
  next
    case False
    with "1.prems" "1.IH" show ?thesis
      by (auto simp add: digits.simps [of n] is_digit_digit_char)
  qed
qed

lemma int_of_digits_snoc: "int_of_digits (s @ [c]) = 10 * int_of_digits s + digit_val c"
  by (simp add: int_of_digits_def)

text \<open>Reading the digits of a number gives the number back, so \<open>str_int\<close> is injective.\<close>

lemma int_of_digits_digits: "int_of_digits (digits n) = int n"
proof (induction n rule: digits.induct)
  case (1 n)
  show ?case
  proof (cases "n < 10")
    case True
    then show ?thesis
      by (simp add: digits.simps [of n] int_of_digits_def digit_val_digit_char)
  next
    case False
    then have "int_of_digits (digits n) = 10 * int (n div 10) + int (n mod 10)"
      using "1.IH" by (simp add: digits.simps [of n] int_of_digits_snoc digit_val_digit_char)
    then show ?thesis
      by (simp add: zdiv_int zmod_int)
  qed
qed

lemma digits_inject: "digits n = digits m \<Longrightarrow> n = m"
  by (metis int_of_digits_digits of_nat_eq_iff)

lemma not_digit_notin_digits: "\<not> is_digit c \<Longrightarrow> c \<notin> set (digits n)"
  using digits_all_digit by blast

lemma str_int_inject: "str_int i = str_int j \<Longrightarrow> i = j"
proof -
  assume eq: "str_int i = str_int j"
  have minus: "CHR ''-'' \<notin> set (digits n)" for n
    by (rule not_digit_notin_digits) (simp add: is_digit_def)
  show ?thesis
  proof (cases "i < 0"; cases "j < 0")
    assume "i < 0" "j < 0"
    with eq have "nat (- i) = nat (- j)"
      by (simp add: str_int_def digits_inject)
    with \<open>i < 0\<close> \<open>j < 0\<close> show ?thesis by simp
  next
    assume "i < 0" "\<not> j < 0"
    with eq have "CHR ''-'' # digits (nat (- i)) = digits (nat j)"
      by (simp add: str_int_def)
    then have "CHR ''-'' \<in> set (digits (nat j))"
      by (metis list.set_intros(1))
    with minus show ?thesis by blast
  next
    assume "\<not> i < 0" "j < 0"
    with eq have "digits (nat i) = CHR ''-'' # digits (nat (- j))"
      by (simp add: str_int_def)
    then have "CHR ''-'' \<in> set (digits (nat i))"
      by simp
    with minus show ?thesis by blast
  next
    assume "\<not> i < 0" "\<not> j < 0"
    with eq have "nat i = nat j"
      by (simp add: str_int_def digits_inject)
    with \<open>\<not> i < 0\<close> \<open>\<not> j < 0\<close> show ?thesis by simp
  qed
qed

lemma underscore_notin_str_int: "CHR ''_'' \<notin> set (str_int i)"
proof -
  have "CHR ''_'' \<notin> set (digits n)" for n
    by (rule not_digit_notin_digits) (simp add: is_digit_def)
  then show ?thesis
    by (simp add: str_int_def)
qed

lemma split_at_underscore:
  "a @ CHR ''_'' # r = a' @ CHR ''_'' # r' \<Longrightarrow> CHR ''_'' \<notin> set a \<Longrightarrow> CHR ''_'' \<notin> set a'
     \<Longrightarrow> a = a' \<and> r = r'"
proof -
  assume eq: "a @ CHR ''_'' # r = a' @ CHR ''_'' # r'"
    and a: "CHR ''_'' \<notin> set a" and a': "CHR ''_'' \<notin> set a'"
  have "takeWhile (\<lambda>c. c \<noteq> CHR ''_'') (a @ CHR ''_'' # r) = a"
    using a by (subst takeWhile_append2) auto
  moreover have "takeWhile (\<lambda>c. c \<noteq> CHR ''_'') (a' @ CHR ''_'' # r') = a'"
    using a' by (subst takeWhile_append2) auto
  ultimately have "a = a'"
    using eq by simp
  with eq show ?thesis
    by simp
qed

lemma sort_limit_page: "sort [''limit'', ''page''] = [''limit'', ''page'']"
  by code_simp

lemma sneakers_name:
  "concat (fname ''sneakers'' [(''limit'', PInt l), (''page'', PInt p)]) @ ''.json''
     = ''sneakers_limit_'' @ str_int l @ CHR ''_'' # (''page_'' @ str_int p @ ''.json'')"
  by (simp add: fname_def sort_limit_page)

lemma sneakers_path:
  "cache_path d ''sneakers'' [(''limit'', PInt l), (''page'', PInt p)]
     = d @ ''/sneakers_limit_'' @ str_int l @ CHR ''_'' # (''page_'' @ str_int p @ ''.json'')"
  unfolding cache_path_def sneakers_name by (simp add: path_join_def startswith_def)

lemma sorted_keys_eq:
  fixes xs ys :: "(string \<times> param) list"
  assumes "distinct (map fst xs)" and "distinct (map fst ys)" and "set xs = set ys"
  shows "sort (map fst xs) = sort (map fst ys)"
proof -
  have "set (map fst xs) = set (map fst ys)"
    using assms(3) by simp
  then have "set (sort (map fst xs)) = set (sort (map fst ys))"
    by simp
  moreover have "distinct (sort (map fst xs))" "distinct (sort (map fst ys))"
    using assms(1,2) by simp_all
  ultimately show ?thesis
    by (intro sorted_distinct_set_unique) simp_all
qed

text \<open>
  C8. Two querystring dictionaries that hold the same key/value pairs, inserted in any
  order, get the same cache file path.
\<close>

theorem cache_path_order_invariant:
  assumes "distinct (map fst xs)" and "distinct (map fst ys)" and "set xs = set ys"
  shows "cache_path cache_dir endpoint xs = cache_path cache_dir endpoint ys"
proof -
  have "map_of xs = map_of ys"
    using assms by (simp add: map_of_inject_set)
  moreover have "sort (map fst xs) = sort (map fst ys)"
    using assms by (rule sorted_keys_eq)
  ultimately show ?thesis
    by (simp add: cache_path_def fname_def)
qed

text \<open>
  The two orders in which \<^verbatim>\<open>limit\<close> and \<^verbatim>\<open>page\<close> can be inserted name one file.
\<close>

theorem cache_path_order_invariant_witness:
  "cache_path ''_cache'' ''sneakers'' [(''limit'', PInt 100), (''page'', PInt 2)]
     = cache_path ''_cache'' ''sneakers'' [(''page'', PInt 2), (''limit'', PInt 100)]"
  using cache_path_order_invariant
    [of "[(''limit'', PInt 100), (''page'', PInt 2)]" "[(''page'', PInt 2), (''limit'', PInt 100)]"
        "''_cache''" "''sneakers''"]
  by auto

text \<open>
  C3, as stated: distinct pairs of endpoint and querystring never share a cache file.
  They can: the parts of the name are joined by \<^verbatim>\<open>_\<close> and nothing is escaped, so an
  endpoint that ends like a parameter names the file of another call.
\<close>

theorem cache_path_collision:
  "(''sneakers_limit_100'', [(''page'', PInt 0)])
     \<noteq> (''sneakers'', [(''limit'', PInt 100), (''page'', PInt 0)])
   \<and> cache_path ''_cache'' ''sneakers_limit_100'' [(''page'', PInt 0)]
     = cache_path ''_cache'' ''sneakers'' [(''limit'', PInt 100), (''page'', PInt 0)]"
  by code_simp

text \<open>
  C3, amended: on the calls the program makes (\<^verbatim>\<open>sneakers\<close> with an integer limit
  and an integer page, \<^verbatim>\<open>brands\<close> and \<^verbatim>\<open>genders\<close> with an empty querystring), two
  calls share a cache file only when they are the same call.
\<close>

theorem cache_path_program_calls_distinct:
  "(cache_path d ''sneakers'' [(''limit'', PInt l), (''page'', PInt p)]
      = cache_path d ''sneakers'' [(''limit'', PInt l'), (''page'', PInt p')]) = (l = l' \<and> p = p')
   \<and> cache_path d ''sneakers'' [(''limit'', PInt l), (''page'', PInt p)] \<noteq> cache_path d ''brands'' []
   \<and> cache_path d ''sneakers'' [(''limit'', PInt l), (''page'', PInt p)] \<noteq> cache_path d ''genders'' []
   \<and> cache_path d ''brands'' [] \<noteq> cache_path d ''genders'' []"
proof (intro conjI)
  show "(cache_path d ''sneakers'' [(''limit'', PInt l), (''page'', PInt p)]
      = cache_path d ''sneakers'' [(''limit'', PInt l'), (''page'', PInt p')]) = (l = l' \<and> p = p')"
  proof
    assume "cache_path d ''sneakers'' [(''limit'', PInt l), (''page'', PInt p)]
      = cache_path d ''sneakers'' [(''limit'', PInt l'), (''page'', PInt p')]"
    then have "str_int l @ CHR ''_'' # (''page_'' @ str_int p @ ''.json'')
             = str_int l' @ CHR ''_'' # (''page_'' @ str_int p' @ ''.json'')"
      by (simp add: sneakers_path)
    then have "str_int l = str_int l' \<and> ''page_'' @ str_int p @ ''.json'' = ''page_'' @ str_int p' @ ''.json''"
      by (rule split_at_underscore) (rule underscore_notin_str_int)+
    then have "str_int l = str_int l' \<and> str_int p = str_int p'"
      by simp
    then show "l = l' \<and> p = p'"
      by (simp add: str_int_inject)
  next
    assume "l = l' \<and> p = p'"
    then show "cache_path d ''sneakers'' [(''limit'', PInt l), (''page'', PInt p)]
      = cache_path d ''sneakers'' [(''limit'', PInt l'), (''page'', PInt p')]"
      by simp
  qed
next
  show "cache_path d ''sneakers'' [(''limit'', PInt l), (''page'', PInt p)] \<noteq> cache_path d ''brands'' []"
    by (simp add: sneakers_path cache_path_def fname_def path_join_def startswith_def)
next
  show "cache_path d ''sneakers'' [(''limit'', PInt l), (''page'', PInt p)] \<noteq> cache_path d ''genders'' []"
    by (simp add: sneakers_path cache_path_def fname_def path_join_def startswith_def)
next
  show "cache_path d ''brands'' [] \<noteq> cache_path d ''genders'' []"
    by (simp add: cache_path_def fname_def path_join_def startswith_def)
qed

section \<open>Gender normalization\<close>


lemma of_char_upper_char:
  "(of_char (upper_char c) :: nat) =
     (if 97 \<le> (of_char c :: nat) \<and> (of_char c :: nat) \<le> 122 then of_char c - 32 else of_char c)"
proof -
  have "(of_char c :: nat) - 32 < 256"
    using nat_of_char_less_256 [of c] by (simp add: less_imp_diff_less)
  then show ?thesis
    by (simp add: upper_char_def Let_def)
qed

lemma upper_char_idem: "upper_char (upper_char c) = upper_char c"
proof -
  have "\<not> (97 \<le> (of_char (upper_char c) :: nat) \<and> (of_char (upper_char c) :: nat) \<le> 122)"
    by (auto simp add: of_char_upper_char)
  then show ?thesis
    unfolding upper_char_def [of "upper_char c"] Let_def by auto
qed

lemma is_space_upper_char: "is_space (upper_char c) = is_space c"
  by (auto simp add: is_space_def of_char_upper_char Let_def)

lemma upper_idem: "upper (upper s) = upper s"
  by (simp add: upper_def upper_char_idem)

lemma trimmed_strip: "trimmed (strip s)"
proof -
  define u where "u = dropWhile is_space s"
  define w where "w = dropWhile is_space (rev u)"
  have s: "strip s = rev w"
    by (simp add: strip_def u_def w_def)
  show ?thesis
  proof (cases "w = []")
    case True
    then show ?thesis by (simp add: s trimmed_def)
  next
    case False
    then have "u \<noteq> []"
      by (auto simp: w_def)
    then have hd_u: "\<not> is_space (hd u)"
      unfolding u_def by (rule hd_dropWhile)
    have "\<not> is_space (hd w)"
      using False unfolding w_def by (rule hd_dropWhile)
    moreover have "last w = last (rev u)"
      using False unfolding w_def
      by (metis last_appendR takeWhile_dropWhile_id)
    then have "last w = hd u"
      using \<open>u \<noteq> []\<close> by (simp add: last_rev)
    ultimately show ?thesis
      using False hd_u by (simp add: s trimmed_def hd_rev last_rev)
  qed
qed

lemma strip_trimmed: "trimmed t \<Longrightarrow> strip t = t"
proof -
  assume t: "trimmed t"
  have 1: "dropWhile is_space t = t"
    using t by (auto simp: trimmed_def dropWhile_eq_self_iff)
  have 2: "dropWhile is_space (rev t) = rev t"
    using t by (auto simp: trimmed_def dropWhile_eq_self_iff hd_rev)
  show ?thesis
    by (simp add: strip_def 1 2)
qed

lemma trimmed_upper: "trimmed t \<Longrightarrow> trimmed (upper t)"
  by (auto simp: trimmed_def upper_def hd_map last_map is_space_upper_char)

lemma endswith_D: "endswith v suf \<Longrightarrow> \<exists>w. v = w @ suf"
  by (metis append_take_drop_id endswith_def)

lemma endswith_append: "endswith (w @ suf) suf"
  by (simp add: endswith_def)

lemma rstrip_MENS: "rstrip (w @ ''MENS'') ''S'' = w @ ''MEN''"
  by (simp add: rstrip_def)

lemma not_endswith_MEN: "\<not> endswith (w @ ''MEN'') ''MENS''"
proof
  assume "endswith (w @ ''MEN'') ''MENS''"
  then obtain x where "w @ ''MEN'' = x @ ''MENS''"
    using endswith_D by blast
  then have "last (w @ ''MEN'') = last (x @ ''MENS'')"
    by simp
  then show False
    by simp
qed

lemma gender_value_fixed:
  assumes "trimmed v" and "upper v = v"
  shows "normalize_gender (gender_value v) = gender_value v"
proof (cases "endswith v ''MENS''")
  case False
  then have "gender_value v = v"
    using assms(2) by (simp add: gender_value_def)
  then show ?thesis
    using assms(1) by (simp add: normalize_gender_def strip_trimmed)
next
  case True
  then obtain w where v: "v = w @ ''MENS''"
    using endswith_D by blast
  have g: "gender_value v = w @ ''MEN''"
    using assms(2) by (simp add: gender_value_def v endswith_append rstrip_MENS del: append.simps)
  have "map upper_char w @ ''MENS'' = w @ ''MENS''"
    using assms(2) by (simp add: v upper_def upper_char_def)
  then have up: "upper (w @ ''MEN'') = w @ ''MEN''"
    by (simp add: upper_def upper_char_def)
  have "trimmed (w @ ''MEN'')"
  proof (cases w)
    case Nil
    then show ?thesis by (simp add: trimmed_def is_space_def)
  next
    case (Cons a w')
    with assms(1) show ?thesis
      by (simp add: trimmed_def v is_space_def)
  qed
  then have "strip (w @ ''MEN'') = w @ ''MEN''"
    by (rule strip_trimmed)
  then have "normalize_gender (w @ ''MEN'') = w @ ''MEN''"
    using up not_endswith_MEN [of w] by (simp add: normalize_gender_def gender_value_def del: append.simps)
  then show ?thesis
    by (simp add: g)
qed

text \<open>
  C5. Gender normalization sends \<^verbatim>\<open>MENS\<close> to \<^verbatim>\<open>MEN\<close> and \<^verbatim>\<open>WOMENS\<close> to
  \<^verbatim>\<open>WOMEN\<close>, leaves \<^verbatim>\<open>MEN\<close> as it is, and applied twice to any text it gives what
  it gives applied once.
\<close>

theorem gender_normalization:
  "normalize_gender ''MENS'' = ''MEN'' \<and> normalize_gender ''WOMENS'' = ''WOMEN''
   \<and> normalize_gender ''MEN'' = ''MEN''
   \<and> normalize_gender (normalize_gender s) = normalize_gender s"
proof (intro conjI)
  show "normalize_gender ''MENS'' = ''MEN''" by code_simp
  show "normalize_gender ''WOMENS'' = ''WOMEN''" by code_simp
  show "normalize_gender ''MEN'' = ''MEN''" by code_simp
  have "trimmed (upper (strip s))"
    by (intro trimmed_upper trimmed_strip)
  moreover have "upper (upper (strip s)) = upper (strip s)"
    by (rule upper_idem)
  ultimately have "normalize_gender (gender_value (upper (strip s))) = gender_value (upper (strip s))"
    by (rule gender_value_fixed)
  moreover have "gender_value (upper (strip s)) = gender_value (strip s)"
    by (simp add: gender_value_def upper_idem)
  ultimately show "normalize_gender (normalize_gender s) = normalize_gender s"
    by (simp add: normalize_gender_def)
qed


section \<open>What the sanitizer keeps\<close>


lemma py_gt0_Inr: "py_gt0 v = Inr b \<Longrightarrow> \<exists>i. v = JInt i \<and> b = (0 < i)"
  by (cases v) auto

lemma py_strip_Inr: "py_strip v = Inr s \<Longrightarrow> \<exists>s0. v = JStr s0 \<and> s = strip s0"
  by (cases v) auto

lemma sanitize_items_other_key:
  "sanitize_items gs bs items d0 = Inr d \<Longrightarrow> k \<notin> fst ` set items \<Longrightarrow> map_of d k = map_of d0 k"
proof (induction items arbitrary: d0)
  case Nil
  then show ?case by simp
next
  case (Cons item items)
  obtain key val where item: "item = (key, val)"
    by (cases item)
  have step: "\<And>d1. sanitize_items gs bs items d1 = Inr d \<Longrightarrow> map_of d k = map_of d1 k"
    using Cons.IH Cons.prems(2) by auto
  have "k \<noteq> key"
    using Cons.prems(2) item by auto
  then show ?case
    using Cons.prems(1) unfolding item
    by (auto simp add: Let_def update_conv' split: if_splits sum.splits dest!: step)
qed


lemma sanitize_items_Cons_int:
  assumes "key \<in> set [''releaseYear'', ''estimatedMarketValue'', ''retailPrice'']"
    and "sanitize_items gs bs ((key, val) # items) d0 = Inr d"
  shows "\<exists>i. val = JInt i
           \<and> sanitize_items gs bs items (if 0 < i then AList.update key val d0 else d0) = Inr d"
proof (cases "py_gt0 val")
  case (Inl e)
  with assms show ?thesis by simp
next
  case (Inr b)
  then obtain i where "val = JInt i" "b = (0 < i)"
    using py_gt0_Inr by blast
  with assms Inr show ?thesis by (cases "0 < i") simp_all
qed

lemma sanitize_items_Cons_text:
  assumes "key \<notin> set [''releaseYear'', ''estimatedMarketValue'', ''retailPrice'']"
    and "sanitize_items gs bs ((key, val) # items) d0 = Inr d"
  shows "\<exists>s0 v. val = JStr s0
           \<and> sanitize_items gs bs items (AList.update key (JStr v) d0) = Inr d
           \<and> (key \<noteq> ''gender'' \<and> key \<noteq> ''brand'' \<longrightarrow> v = strip s0)
           \<and> (key = ''gender'' \<longrightarrow> v = normalize_gender s0 \<and> v \<in> set gs)
           \<and> (key = ''brand'' \<longrightarrow> v = upper (strip s0) \<and> v \<in> set bs)"
proof (cases "py_strip val")
  case (Inl e)
  with assms show ?thesis by simp
next
  case (Inr s)
  then obtain s0 where s0: "val = JStr s0" "s = strip s0"
    using py_strip_Inr by blast
  consider "key = ''gender''" | "key = ''brand''" | "key \<noteq> ''gender''" "key \<noteq> ''brand''"
    by blast
  then show ?thesis
  proof cases
    case 1
    with assms(2) s0 show ?thesis
      by (simp add: Let_def normalize_gender_def split: if_splits)
  next
    case 2
    with assms(2) s0 show ?thesis
      by (simp add: Let_def split: if_splits)
  next
    case 3
    with assms s0 show ?thesis
      by (simp add: Let_def)
  qed
qed

declare sanitize_items.simps [simp del]

lemma sanitize_items_int_key:
  assumes "sanitize_items gs bs items d0 = Inr d" and "distinct (map fst items)"
    and "k \<in> set [''releaseYear'', ''estimatedMarketValue'', ''retailPrice'']"
    and "map_of items k = Some v"
  shows "\<exists>i. v = JInt i \<and> map_of d k = (if 0 < i then Some (JInt i) else map_of d0 k)"
  using assms(1,2,4)
proof (induction items arbitrary: d0)
  case Nil
  then show ?case by simp
next
  case (Cons item items)
  obtain key val where item: "item = (key, val)"
    by (cases item)
  show ?case
  proof (cases "key = k")
    case True
    then have v: "val = v"
      using Cons.prems(3) item by simp
    have notin: "k \<notin> fst ` set items"
      using Cons.prems(2) item True by auto
    from sanitize_items_Cons_int [OF assms(3) Cons.prems(1) [unfolded item True v]]
    obtain i where i: "v = JInt i"
      and rest: "sanitize_items gs bs items (if 0 < i then AList.update k v d0 else d0) = Inr d"
      by (elim exE conjE)
    have "map_of d k = map_of (if 0 < i then AList.update k v d0 else d0) k"
      using rest notin by (rule sanitize_items_other_key)
    then show ?thesis
      using i by (simp add: update_conv')
  next
    case False
    then have look: "map_of items k = Some v"
      using Cons.prems(3) item by simp
    have dist: "distinct (map fst items)"
      using Cons.prems(2) by simp
    have "\<exists>d1. sanitize_items gs bs items d1 = Inr d \<and> map_of d1 k = map_of d0 k"
    proof (cases "key \<in> set [''releaseYear'', ''estimatedMarketValue'', ''retailPrice'']")
      case True
      from sanitize_items_Cons_int [OF True Cons.prems(1) [unfolded item]]
      obtain i where "val = JInt i"
        and "sanitize_items gs bs items (if 0 < i then AList.update key val d0 else d0) = Inr d"
        by (elim exE conjE)
      moreover have "map_of (if 0 < i then AList.update key val d0 else d0) k = map_of d0 k"
        using False by (simp add: update_conv')
      ultimately show ?thesis by blast
    next
      case False
      from sanitize_items_Cons_text [OF False Cons.prems(1) [unfolded item]]
      obtain s0 w where "val = JStr s0"
        and "sanitize_items gs bs items (AList.update key (JStr w) d0) = Inr d"
        by (elim exE conjE)
      moreover have "map_of (AList.update key (JStr w) d0) k = map_of d0 k"
        using \<open>key \<noteq> k\<close> by (simp add: update_conv')
      ultimately show ?thesis by blast
    qed
    then obtain d1 where d1: "sanitize_items gs bs items d1 = Inr d" "map_of d1 k = map_of d0 k"
      by blast
    from Cons.IH [OF d1(1) dist look]
    obtain i where "v = JInt i" and "map_of d k = (if 0 < i then Some (JInt i) else map_of d1 k)"
      by (elim exE conjE)
    then have "v = JInt i \<and> map_of d k = (if 0 < i then Some (JInt i) else map_of d0 k)"
      using d1(2) by simp
    then show ?thesis
      by (rule exI)
  qed
qed

lemma sanitize_items_text_key:
  assumes "sanitize_items gs bs items d0 = Inr d" and "distinct (map fst items)"
    and "k \<notin> set [''releaseYear'', ''estimatedMarketValue'', ''retailPrice'']"
    and "k \<noteq> ''gender''" and "k \<noteq> ''brand''"
    and "map_of items k = Some v"
  shows "\<exists>s. v = JStr s \<and> map_of d k = Some (JStr (strip s))"
  using assms(1,2,6)
proof (induction items arbitrary: d0)
  case Nil
  then show ?case by simp
next
  case (Cons item items)
  obtain key val where item: "item = (key, val)"
    by (cases item)
  show ?case
  proof (cases "key = k")
    case True
    then have v: "val = v"
      using Cons.prems(3) item by simp
    have notin: "k \<notin> fst ` set items"
      using Cons.prems(2) item True by auto
    from sanitize_items_Cons_text [OF assms(3) Cons.prems(1) [unfolded item True v]]
    obtain s0 w where s0: "v = JStr s0"
      and rest: "sanitize_items gs bs items (AList.update k (JStr w) d0) = Inr d"
      and w: "k \<noteq> ''gender'' \<and> k \<noteq> ''brand'' \<longrightarrow> w = strip s0"
      by (elim exE conjE)
    have "map_of d k = map_of (AList.update k (JStr w) d0) k"
      using rest notin by (rule sanitize_items_other_key)
    moreover have "w = strip s0"
      using w assms(4,5) by blast
    ultimately show ?thesis
      using s0 by (simp add: update_conv')
  next
    case False
    then have look: "map_of items k = Some v"
      using Cons.prems(3) item by simp
    have dist: "distinct (map fst items)"
      using Cons.prems(2) by simp
    have "\<exists>d1. sanitize_items gs bs items d1 = Inr d"
    proof (cases "key \<in> set [''releaseYear'', ''estimatedMarketValue'', ''retailPrice'']")
      case True
      from sanitize_items_Cons_int [OF True Cons.prems(1) [unfolded item]]
      obtain i where "val = JInt i"
        and "sanitize_items gs bs items (if 0 < i then AList.update key val d0 else d0) = Inr d"
        by (elim exE conjE)
      then show ?thesis by (intro exI)
    next
      case False
      from sanitize_items_Cons_text [OF False Cons.prems(1) [unfolded item]]
      obtain s0 w where "val = JStr s0"
        and "sanitize_items gs bs items (AList.update key (JStr w) d0) = Inr d"
        by (elim exE conjE)
      then show ?thesis by (intro exI)
    qed
    then obtain d1 where d1: "sanitize_items gs bs items d1 = Inr d"
      by blast
    from Cons.IH [OF d1 dist look] show ?thesis .
  qed
qed

lemma sanitize_items_year:
  "sanitize_items gs bs items d0 = Inr d
   \<Longrightarrow> map_of d0 ''releaseYear'' = None \<or> (\<exists>y. 0 < y \<and> map_of d0 ''releaseYear'' = Some (JInt y))
   \<Longrightarrow> map_of d ''releaseYear'' = None \<or> (\<exists>y. 0 < y \<and> map_of d ''releaseYear'' = Some (JInt y))"
proof (induction items arbitrary: d0)
  case Nil
  then show ?case by (simp add: sanitize_items.simps)
next
  case (Cons item items)
  obtain key val where item: "item = (key, val)"
    by (cases item)
  have "\<exists>d1. sanitize_items gs bs items d1 = Inr d
          \<and> (map_of d1 ''releaseYear'' = None \<or> (\<exists>y. 0 < y \<and> map_of d1 ''releaseYear'' = Some (JInt y)))"
  proof (cases "key \<in> set [''releaseYear'', ''estimatedMarketValue'', ''retailPrice'']")
    case True
    from sanitize_items_Cons_int [OF True Cons.prems(1) [unfolded item]]
    obtain i where i: "val = JInt i"
      and rest: "sanitize_items gs bs items (if 0 < i then AList.update key val d0 else d0) = Inr d"
      by (elim exE conjE)
    have "map_of (if 0 < i then AList.update key val d0 else d0) ''releaseYear'' = None
        \<or> (\<exists>y. 0 < y \<and> map_of (if 0 < i then AList.update key val d0 else d0) ''releaseYear'' = Some (JInt y))"
      using Cons.prems(2) i by (auto simp add: update_conv')
    with rest show ?thesis by blast
  next
    case False
    from sanitize_items_Cons_text [OF False Cons.prems(1) [unfolded item]]
    obtain s0 w where "val = JStr s0"
      and rest: "sanitize_items gs bs items (AList.update key (JStr w) d0) = Inr d"
      by (elim exE conjE)
    have "key \<noteq> ''releaseYear''"
      using False by auto
    then have "map_of (AList.update key (JStr w) d0) ''releaseYear'' = map_of d0 ''releaseYear''"
      by (simp add: update_conv')
    then have "map_of (AList.update key (JStr w) d0) ''releaseYear'' = None
        \<or> (\<exists>y. 0 < y \<and> map_of (AList.update key (JStr w) d0) ''releaseYear'' = Some (JInt y))"
      using Cons.prems(2) by simp
    with rest show ?thesis by blast
  qed
  then obtain d1 where "sanitize_items gs bs items d1 = Inr d"
    and "map_of d1 ''releaseYear'' = None \<or> (\<exists>y. 0 < y \<and> map_of d1 ''releaseYear'' = Some (JInt y))"
    by blast
  then show ?case
    by (rule Cons.IH)
qed

section \<open>Date and year reconciliation\<close>


lemma is_digit_not_space: "is_digit c \<Longrightarrow> \<not> is_space c"
  by (simp add: is_digit_def is_space_def Let_def)

lemma is_digit_not_minus: "is_digit c \<Longrightarrow> c \<noteq> CHR ''-''"
  by (auto simp add: is_digit_def)

lemma digit_val_range: "is_digit c \<Longrightarrow> 0 \<le> digit_val c \<and> digit_val c \<le> 9"
  by (simp add: is_digit_def digit_val_def Let_def)

lemma digit_val_zero: "digit_val c = 0 \<Longrightarrow> c = CHR ''0''"
proof -
  assume "digit_val c = 0"
  then have "(of_char c :: nat) = 48"
    by (simp add: digit_val_def)
  then have "char_of (of_char c :: nat) = (char_of (48 :: nat) :: char)"
    by simp
  moreover have "(char_of (48 :: nat) :: char) = CHR ''0''"
    by code_simp
  ultimately show ?thesis
    by simp
qed

lemma match_dateE:
  assumes "match_date rd"
  obtains a b c d e f g h where "rd = [a, b, c, d, CHR ''-'', e, f, CHR ''-'', g, h]"
    and "is_digit a" and "is_digit b" and "is_digit c" and "is_digit d"
    and "is_digit e" and "is_digit f" and "is_digit g" and "is_digit h"
proof -
  from assms have "length rd = 10"
    by (simp add: match_date_def)
  then obtain x0 x1 x2 x3 x4 x5 x6 x7 x8 x9 where rd: "rd = [x0, x1, x2, x3, x4, x5, x6, x7, x8, x9]"
    by (auto simp add: length_Suc_conv eval_nat_numeral)
  from assms have "x4 = CHR ''-''" "x7 = CHR ''-''" "is_digit x0" "is_digit x1" "is_digit x2"
    "is_digit x3" "is_digit x5" "is_digit x6" "is_digit x8" "is_digit x9"
    by (simp_all add: match_date_def rd)
  with rd that show ?thesis
    by blast
qed

lemma match_date_trimmed: "match_date rd \<Longrightarrow> trimmed rd"
  by (erule match_dateE) (simp add: trimmed_def is_digit_not_space)

lemma match_date_strip: "match_date rd \<Longrightarrow> strip rd = rd"
  by (rule strip_trimmed) (rule match_date_trimmed)

lemma int_of_digits_4:
  "int_of_digits [a, b, c, d] = 1000 * digit_val a + 100 * digit_val b + 10 * digit_val c + digit_val d"
  by (simp add: int_of_digits_def)

text \<open>The text before the first dash is the first four characters, and the year they
  spell after the rewrite is at least 100.\<close>

lemma match_date_year:
  assumes "match_date rd"
  defines "rd' \<equiv> (if startswith rd ''00'' then ''20'' @ drop 2 rd else rd)"
  shows "takeWhile (\<lambda>c. c \<noteq> CHR ''-'') rd' = take 4 rd'"
    and "100 \<le> int_of_digits (take 4 rd')"
    and "rd' \<noteq> []"
proof -
  from assms(1) obtain a b c d e f g h where rd: "rd = [a, b, c, d, CHR ''-'', e, f, CHR ''-'', g, h]"
    and dg: "is_digit a" "is_digit b" "is_digit c" "is_digit d"
    by (rule match_dateE)
  note nm = dg [THEN is_digit_not_minus]
  show "takeWhile (\<lambda>c. c \<noteq> CHR ''-'') rd' = take 4 rd'"
    using nm by (simp add: rd'_def rd startswith_def)
  show "rd' \<noteq> []"
    by (simp add: rd'_def rd)
  show "100 \<le> int_of_digits (take 4 rd')"
  proof (cases "startswith rd ''00''")
    case True
    then have "take 4 rd' = [CHR ''2'', CHR ''0'', c, d]"
      by (simp add: rd'_def rd)
    then show ?thesis
      using digit_val_range [OF dg(3)] digit_val_range [OF dg(4)]
      by (simp add: int_of_digits_4 digit_val_def)
  next
    case False
    then have t: "take 4 rd' = [a, b, c, d]"
      by (simp add: rd'_def rd)
    have "a \<noteq> CHR ''0'' \<or> b \<noteq> CHR ''0''"
      using False by (auto simp add: rd startswith_def)
    then have "digit_val a \<noteq> 0 \<or> digit_val b \<noteq> 0"
      using digit_val_zero by blast
    then show ?thesis
      using digit_val_range [OF dg(1)] digit_val_range [OF dg(2)]
        digit_val_range [OF dg(3)] digit_val_range [OF dg(4)]
      unfolding t int_of_digits_4 by arith
  qed
qed

lemma dict_get_delete: "k \<noteq> k' \<Longrightarrow> dict_get (AList.delete k d) k' = dict_get d k'"
  by (simp add: dict_get_def delete_conv')


lemma fix_date_valid:
  assumes rdk: "map_of data ''releaseDate'' = Some (JStr rd0)"
    and m: "match_date (strip rd0)" and ns: "strip rd0 \<noteq> ''0001-01-01''"
  defines "rd \<equiv> (if startswith (strip rd0) ''00'' then ''20'' @ drop 2 (strip rd0) else strip rd0)"
  defines "year \<equiv> int_of_digits (take 4 rd)"
  defines "data2 \<equiv> AList.delete ''releaseYear'' (AList.delete ''releaseDate'' data)"
  defines "ry0 \<equiv> dict_get data ''releaseYear''"
  shows "ry0 = JNull \<or> ry0 = JInt 0 \<Longrightarrow>
           fix_date_and_year_in_sneaker_data data =
             Inr (AList.update ''releaseYear'' (JInt year) (AList.update ''releaseDate'' (JStr rd) data2),
                  [(INFO, Filling_release_year (dict_get data ''sku''))])"
    and "ry0 = JInt y \<Longrightarrow> y \<noteq> 0 \<Longrightarrow>
           fix_date_and_year_in_sneaker_data data =
             Inr (if (if y < 99 then y + 2000 else y) \<noteq> 0
                  then AList.update ''releaseYear'' (JInt (if y < 99 then y + 2000 else y))
                         (AList.update ''releaseDate'' (JStr rd) data2)
                  else AList.update ''releaseDate'' (JStr rd) data2,
                  if (if y < 99 then y + 2000 else y) \<noteq> year
                  then [(ERROR, Year_mismatch (dict_get data ''sku'') (if y < 99 then y + 2000 else y) rd)]
                  else [])"
proof -
  have ne: "strip rd0 \<noteq> []"
    using m by (auto simp add: match_date_def)
  have tw: "takeWhile (\<lambda>c. c \<noteq> CHR ''-'') rd = take 4 rd"
    and yr: "100 \<le> year" and rdne: "rd \<noteq> []"
    using match_date_year [OF m] by (simp_all add: rd_def year_def)
  have g1: "dict_get (AList.delete ''releaseDate'' data) ''releaseYear'' = ry0"
    by (simp add: ry0_def dict_get_delete)
  have g2: "dict_get data2 ''sku'' = dict_get data ''sku''"
    by (simp add: data2_def dict_get_delete)
  {
    assume "ry0 = JNull \<or> ry0 = JInt 0"
    then show "fix_date_and_year_in_sneaker_data data =
             Inr (AList.update ''releaseYear'' (JInt year) (AList.update ''releaseDate'' (JStr rd) data2),
                  [(INFO, Filling_release_year (dict_get data ''sku''))])"
      unfolding fix_date_and_year_in_sneaker_data_def Let_def rdk g1
      using m ns ne tw yr rdne g2
      by (simp add: rd_def [symmetric] data2_def [symmetric] year_def [symmetric])
  }
  {
    assume "ry0 = JInt y" "y \<noteq> 0"
    then show "fix_date_and_year_in_sneaker_data data =
             Inr (if (if y < 99 then y + 2000 else y) \<noteq> 0
                  then AList.update ''releaseYear'' (JInt (if y < 99 then y + 2000 else y))
                         (AList.update ''releaseDate'' (JStr rd) data2)
                  else AList.update ''releaseDate'' (JStr rd) data2,
                  if (if y < 99 then y + 2000 else y) \<noteq> year
                  then [(ERROR, Year_mismatch (dict_get data ''sku'') (if y < 99 then y + 2000 else y) rd)]
                  else [])"
      unfolding fix_date_and_year_in_sneaker_data_def Let_def rdk g1
      using m ns ne tw yr rdne g2
      by (simp add: rd_def [symmetric] data2_def [symmetric] year_def [symmetric])
  }
qed

lemma fix_date_sentinel:
  assumes rdk: "map_of data ''releaseDate'' = Some (JStr rd0)"
    and s: "strip rd0 = ''0001-01-01''"
  defines "data2 \<equiv> AList.delete ''releaseYear'' (AList.delete ''releaseDate'' data)"
  defines "ry0 \<equiv> dict_get data ''releaseYear''"
  shows "fix_date_and_year_in_sneaker_data data =
           Inr (if truthy ry0
                then AList.update ''releaseYear'' ry0 (AList.update ''releaseDate'' (JStr ''0001-01-01'') data2)
                else AList.update ''releaseDate'' (JStr ''0001-01-01'') data2, [])"
proof -
  have g1: "dict_get (AList.delete ''releaseDate'' data) ''releaseYear'' = ry0"
    by (simp add: ry0_def dict_get_delete)
  show ?thesis
    unfolding fix_date_and_year_in_sneaker_data_def Let_def rdk g1
    by (simp add: s data2_def [symmetric])
qed

lemma sanitized_year:
  assumes "get_basically_sanitized_sneaker_data db sneaker = Inr data"
  shows "dict_get data ''releaseYear'' = JNull
         \<or> (\<exists>y. 0 < y \<and> dict_get data ''releaseYear'' = JInt y)"
proof -
  have "map_of data ''releaseYear'' = None \<or> (\<exists>y. 0 < y \<and> map_of data ''releaseYear'' = Some (JInt y))"
    using assms unfolding get_basically_sanitized_sneaker_data_def
    by (rule sanitize_items_year) simp
  then show ?thesis
    by (auto simp add: dict_get_def)
qed

text \<open>
  C1, as stated: a release date equal to the sentinel \<^verbatim>\<open>0001-01-01\<close> is treated as
  absent, and the normalized output has no \<^verbatim>\<open>releaseDate\<close> field. The code skips the
  validation and the rewrite for the sentinel, but its final \<^verbatim>\<open>if rd:\<close> writes the date
  back (the source comment: "I just want to leave it there").
\<close>

theorem sentinel_date_is_kept:
  "fix_date_and_year_in_sneaker_data [(''sku'', JStr ''A1''), (''releaseDate'', JStr ''0001-01-01'')]
     = Inr ([(''sku'', JStr ''A1''), (''releaseDate'', JStr ''0001-01-01'')], [])"
  by code_simp

text \<open>
  C1, amended. For a record whose \<^verbatim>\<open>releaseDate\<close> is a string: when the stripped date
  is the sentinel, the reconciliation returns without a log entry, the output keeps
  \<^verbatim>\<open>releaseDate = "0001-01-01"\<close>, and its \<^verbatim>\<open>releaseYear\<close> is the one given (left out
  when it is absent or zero): no year is inferred from the date. When the stripped date
  matches the pattern, starts with \<^verbatim>\<open>00\<close> and is not the sentinel (the year being
  absent or an integer), the output date is the stripped date with \<^verbatim>\<open>20\<close> in place of
  its first two characters.
\<close>

theorem date_rewrite_and_sentinel:
  assumes "map_of data ''releaseDate'' = Some (JStr rd0)"
  shows "(strip rd0 = ''0001-01-01'' \<longrightarrow>
            (\<exists>data'. fix_date_and_year_in_sneaker_data data = Inr (data', [])
               \<and> map_of data' ''releaseDate'' = Some (JStr ''0001-01-01'')
               \<and> map_of data' ''releaseYear'' =
                   (if truthy (dict_get data ''releaseYear'')
                    then Some (dict_get data ''releaseYear'') else None)))
       \<and> (match_date (strip rd0) \<and> startswith (strip rd0) ''00'' \<and> strip rd0 \<noteq> ''0001-01-01''
            \<and> (dict_get data ''releaseYear'' = JNull \<or> (\<exists>y. dict_get data ''releaseYear'' = JInt y)) \<longrightarrow>
            (\<exists>data' entries. fix_date_and_year_in_sneaker_data data = Inr (data', entries)
               \<and> map_of data' ''releaseDate'' = Some (JStr (''20'' @ drop 2 (strip rd0)))))"
proof (intro conjI impI)
  assume s: "strip rd0 = ''0001-01-01''"
  show "\<exists>data'. fix_date_and_year_in_sneaker_data data = Inr (data', [])
               \<and> map_of data' ''releaseDate'' = Some (JStr ''0001-01-01'')
               \<and> map_of data' ''releaseYear'' =
                   (if truthy (dict_get data ''releaseYear'')
                    then Some (dict_get data ''releaseYear'') else None)"
    unfolding fix_date_sentinel [OF assms s]
    by (simp add: update_conv' delete_conv')
next
  assume a: "match_date (strip rd0) \<and> startswith (strip rd0) ''00'' \<and> strip rd0 \<noteq> ''0001-01-01''
            \<and> (dict_get data ''releaseYear'' = JNull \<or> (\<exists>y. dict_get data ''releaseYear'' = JInt y))"
  then have m: "match_date (strip rd0)" and z: "startswith (strip rd0) ''00''"
    and ns: "strip rd0 \<noteq> ''0001-01-01''"
    by simp_all
  from a consider "dict_get data ''releaseYear'' = JNull \<or> dict_get data ''releaseYear'' = JInt 0"
    | y where "dict_get data ''releaseYear'' = JInt y" "y \<noteq> 0"
    by blast
  then show "\<exists>data' entries. fix_date_and_year_in_sneaker_data data = Inr (data', entries)
               \<and> map_of data' ''releaseDate'' = Some (JStr (''20'' @ drop 2 (strip rd0)))"
  proof cases
    case 1
    show ?thesis
      unfolding fix_date_valid(1) [OF assms m ns 1]
      using z by (simp add: update_conv')
  next
    case 2
    show ?thesis
      unfolding fix_date_valid(2) [OF assms m ns 2]
      using z by (simp add: update_conv')
  qed
qed

text \<open>The sentinel stays; \<^verbatim>\<open>0099-05-01\<close> becomes \<^verbatim>\<open>2099-05-01\<close>.\<close>

theorem date_rewrite_and_sentinel_witness:
  "(\<exists>data'. fix_date_and_year_in_sneaker_data [(''releaseDate'', JStr ''0001-01-01'')] = Inr (data', [])
      \<and> map_of data' ''releaseDate'' = Some (JStr ''0001-01-01'')
      \<and> map_of data' ''releaseYear'' = None)
   \<and> (\<exists>data' entries. fix_date_and_year_in_sneaker_data [(''releaseDate'', JStr ''0099-05-01'')]
        = Inr (data', entries)
      \<and> map_of data' ''releaseDate'' = Some (JStr ''2099-05-01''))"
proof -
  have s1: "strip ''0001-01-01'' = ''0001-01-01''" by code_simp
  have s2: "strip ''0099-05-01'' = ''0099-05-01''" by code_simp
  have m2: "match_date ''0099-05-01''" by code_simp
  have z2: "startswith ''0099-05-01'' ''00''" by code_simp
  have 1: "map_of [(''releaseDate'', JStr ''0001-01-01'')] ''releaseDate'' = Some (JStr ''0001-01-01'')"
    by simp
  have 2: "map_of [(''releaseDate'', JStr ''0099-05-01'')] ''releaseDate'' = Some (JStr ''0099-05-01'')"
    by simp
  have g1: "dict_get [(''releaseDate'', JStr ''0001-01-01'')] ''releaseYear'' = JNull" by code_simp
  have g2: "dict_get [(''releaseDate'', JStr ''0099-05-01'')] ''releaseYear'' = JNull" by code_simp
  from date_rewrite_and_sentinel [OF 1] date_rewrite_and_sentinel [OF 2]
  show ?thesis
    unfolding s1 s2 g1 g2 using m2 z2 by simp
qed

section \<open>Non-positive integer fields\<close>

lemma distinct_lookup_unique:
  "distinct (map fst xs) \<Longrightarrow> map_of xs k = Some v \<Longrightarrow> (k, w) \<in> set xs \<Longrightarrow> w = v"
  by (metis map_of_eq_Some_iff option.inject)

lemma sanitize_items_drop_year:
  assumes "\<forall>v. (''releaseYear'', v) \<in> set items \<longrightarrow> (\<exists>y. y \<le> 0 \<and> v = JInt y)"
  shows "sanitize_items gs bs items d0
         = sanitize_items gs bs (AList.delete ''releaseYear'' items) d0"
  using assms
proof (induction items arbitrary: d0)
  case Nil
  then show ?case by simp
next
  case (Cons item items)
  obtain key val where item: "item = (key, val)"
    by (cases item)
  have IH: "\<And>d1. sanitize_items gs bs items d1
             = sanitize_items gs bs (AList.delete ''releaseYear'' items) d1"
    using Cons.IH Cons.prems by simp
  show ?case
  proof (cases "key = ''releaseYear''")
    case True
    then obtain y where "y \<le> 0" "val = JInt y"
      using Cons.prems item by auto
    then show ?thesis
      unfolding item True by (simp add: sanitize_items.simps IH)
  next
    case False
    then show ?thesis
      unfolding item
      by (simp add: sanitize_items.simps(2) [of gs bs key val] IH Let_def split: sum.splits)
  qed
qed

text \<open>
  C10. \<^verbatim>\<open>releaseYear\<close> is one of the three integer fields kept only when positive. A
  record whose \<^verbatim>\<open>releaseYear\<close> is zero or negative is sanitized exactly as the record
  without that field, so the value fails nothing; the sanitized data have no
  \<^verbatim>\<open>releaseYear\<close>; and when they have a valid release date that is not the sentinel,
  the reconciliation fills the year in from the date and logs that it did.
\<close>

theorem nonpositive_year_refilled:
  assumes dist: "distinct (map fst sneaker)"
    and look: "map_of sneaker ''releaseYear'' = Some (JInt y)" and y: "y \<le> 0"
  shows "get_basically_sanitized_sneaker_data db sneaker
           = get_basically_sanitized_sneaker_data db (AList.delete ''releaseYear'' sneaker)
       \<and> (\<forall>data. get_basically_sanitized_sneaker_data db sneaker = Inr data \<longrightarrow>
             map_of data ''releaseYear'' = None
           \<and> (\<forall>rd0. map_of data ''releaseDate'' = Some (JStr rd0) \<and> match_date rd0
                   \<and> rd0 \<noteq> ''0001-01-01'' \<longrightarrow>
                (\<exists>data'. fix_date_and_year_in_sneaker_data data =
                            Inr (data', [(INFO, Filling_release_year (dict_get data ''sku''))])
                   \<and> map_of data' ''releaseYear'' =
                       Some (JInt (int_of_digits (take 4
                         (if startswith rd0 ''00'' then ''20'' @ drop 2 rd0 else rd0)))))))"
proof (intro conjI allI impI)
  have "\<forall>v. (''releaseYear'', v) \<in> set sneaker \<longrightarrow> (\<exists>y. y \<le> 0 \<and> v = JInt y)"
    using distinct_lookup_unique [OF dist look] y by blast
  then show "get_basically_sanitized_sneaker_data db sneaker
           = get_basically_sanitized_sneaker_data db (AList.delete ''releaseYear'' sneaker)"
    unfolding get_basically_sanitized_sneaker_data_def by (rule sanitize_items_drop_year)
next
  fix data
  assume san: "get_basically_sanitized_sneaker_data db sneaker = Inr data"
  have k: "''releaseYear'' \<in> set [''releaseYear'', ''estimatedMarketValue'', ''retailPrice'']"
    by simp
  from sanitize_items_int_key [OF san [unfolded get_basically_sanitized_sneaker_data_def] dist k look]
  show none: "map_of data ''releaseYear'' = None"
    using y by simp
  fix rd0
  assume a: "map_of data ''releaseDate'' = Some (JStr rd0) \<and> match_date rd0 \<and> rd0 \<noteq> ''0001-01-01''"
  then have rdk: "map_of data ''releaseDate'' = Some (JStr rd0)" and m0: "match_date rd0"
    and ns0: "rd0 \<noteq> ''0001-01-01''"
    by simp_all
  have s: "strip rd0 = rd0"
    using m0 by (rule match_date_strip)
  have m: "match_date (strip rd0)" and ns: "strip rd0 \<noteq> ''0001-01-01''"
    using m0 ns0 by (simp_all add: s)
  have ry0: "dict_get data ''releaseYear'' = JNull \<or> dict_get data ''releaseYear'' = JInt 0"
    using none by (simp add: dict_get_def)
  show "\<exists>data'. fix_date_and_year_in_sneaker_data data =
                            Inr (data', [(INFO, Filling_release_year (dict_get data ''sku''))])
                   \<and> map_of data' ''releaseYear'' =
                       Some (JInt (int_of_digits (take 4
                         (if startswith rd0 ''00'' then ''20'' @ drop 2 rd0 else rd0))))"
    unfolding fix_date_valid(1) [OF rdk m ns ry0]
    by (simp add: update_conv' s)
qed

text \<open>A record with year -5 and date \<^verbatim>\<open>2015-03-01\<close> ends with year 2015.\<close>

theorem nonpositive_year_refilled_witness:
  "get_basically_sanitized_sneaker_data init_database
      [(''sku'', JStr ''A1''), (''releaseYear'', JInt (- 5)), (''releaseDate'', JStr ''2015-03-01'')]
     = get_basically_sanitized_sneaker_data init_database
         [(''sku'', JStr ''A1''), (''releaseDate'', JStr ''2015-03-01'')]
   \<and> get_basically_sanitized_sneaker_data init_database
        [(''sku'', JStr ''A1''), (''releaseYear'', JInt (- 5)), (''releaseDate'', JStr ''2015-03-01'')]
     = Inr [(''sku'', JStr ''A1''), (''releaseDate'', JStr ''2015-03-01'')]
   \<and> (\<exists>data'. fix_date_and_year_in_sneaker_data
                  [(''sku'', JStr ''A1''), (''releaseDate'', JStr ''2015-03-01'')]
                = Inr (data', [(INFO, Filling_release_year (JStr ''A1''))])
              \<and> map_of data' ''releaseYear'' = Some (JInt 2015))"
proof -
  let ?sneaker = "[(''sku'', JStr ''A1''), (''releaseYear'', JInt (- 5)),
                   (''releaseDate'', JStr ''2015-03-01'')]"
  let ?data = "[(''sku'', JStr ''A1''), (''releaseDate'', JStr ''2015-03-01'')]"
  have dist: "distinct (map fst ?sneaker)" by code_simp
  have look: "map_of ?sneaker ''releaseYear'' = Some (JInt (- 5))" by code_simp
  have del: "AList.delete ''releaseYear'' ?sneaker = ?data" by code_simp
  have san: "get_basically_sanitized_sneaker_data init_database ?sneaker = Inr ?data" by code_simp
  have rdk: "map_of ?data ''releaseDate'' = Some (JStr ''2015-03-01'')" by code_simp
  have m: "match_date ''2015-03-01''" by code_simp
  have z: "\<not> startswith ''2015-03-01'' ''00''" by code_simp
  have yr: "int_of_digits (take 4 ''2015-03-01'') = 2015" by code_simp
  have sku: "dict_get ?data ''sku'' = JStr ''A1''" by code_simp
  note inst = nonpositive_year_refilled [OF dist look, of init_database, simplified del]
  have 1: "get_basically_sanitized_sneaker_data init_database ?sneaker
           = get_basically_sanitized_sneaker_data init_database ?data"
    using inst by simp
  have "\<exists>data'. fix_date_and_year_in_sneaker_data ?data =
                  Inr (data', [(INFO, Filling_release_year (dict_get ?data ''sku''))])
              \<and> map_of data' ''releaseYear'' =
                  Some (JInt (int_of_digits (take 4
                    (if startswith ''2015-03-01'' ''00'' then ''20'' @ drop 2 ''2015-03-01''
                     else ''2015-03-01''))))"
    using inst san rdk m by simp
  then have 3: "\<exists>data'. fix_date_and_year_in_sneaker_data ?data =
                  Inr (data', [(INFO, Filling_release_year (JStr ''A1''))])
              \<and> map_of data' ''releaseYear'' = Some (JInt 2015)"
    unfolding sku using z yr by simp
  from 1 san 3 show ?thesis
    by simp
qed

section \<open>What a record leaves in the store\<close>

lemma insert_images_sneakers:
  "insert_images sku pos imgs t = (exc, t') \<Longrightarrow> t_sneakers t' = t_sneakers t"
proof (induction imgs arbitrary: pos t)
  case Nil
  then show ?case by simp
next
  case (Cons img imgs)
  show ?case
  proof (cases "bindable sku \<and> bindable img")
    case True
    with Cons.prems have "insert_images sku (Suc pos) imgs
        (t\<lparr>t_images_360 := t_images_360 t @ [(sku, pos, img)]\<rparr>) = (exc, t')"
      by simp
    from Cons.IH [OF this] show ?thesis
      by simp
  next
    case False
    with Cons.prems show ?thesis
      by auto
  qed
qed

lemma insert_360_images_sneakers:
  "insert_360_images sku images t = (exc, t') \<Longrightarrow> t_sneakers t' = t_sneakers t"
  unfolding insert_360_images_def
  by (auto split: sum.splits if_splits dest: insert_images_sneakers)

lemma execute_insert_sneaker_row:
  "execute_insert_sneaker data t = Inr t' \<Longrightarrow> t_sneakers t' = t_sneakers t @ [data]"
  unfolding execute_insert_sneaker_def
  by (auto split: if_splits option.splits)

lemma fix_date_entries:
  assumes "fix_date_and_year_in_sneaker_data data = Inr (data1, entries)"
  shows "processed_pages entries = []"
proof -
  have "entries = [] \<or> (\<exists>lvl sku. entries = [(lvl, Filling_release_year sku)])
      \<or> (\<exists>lvl sku ry rd. entries = [(lvl, Year_mismatch sku ry rd)])"
    using assms unfolding fix_date_and_year_in_sneaker_data_def Let_def
    by (auto split: sum.splits if_splits json.splits)
  then show ?thesis
    by auto
qed


lemma insert_sneaker_frame:
  assumes "insert_sneaker sneaker db = (exc, db')"
  shows "durable db' = durable db \<and> page_limit db' = page_limit db
       \<and> (\<exists>entries. logs db' = logs db @ entries \<and> processed_pages entries = [])
       \<and> (\<exists>rows. t_sneakers (conn db') = t_sneakers (conn db) @ rows)"
  using assms unfolding insert_sneaker_def Let_def
  by (auto split: sum.splits if_splits prod.splits
      dest!: fix_date_entries execute_insert_sneaker_row insert_360_images_sneakers)

lemma insert_sneaker_stored:
  assumes "insert_sneaker sneaker db = (None, db')"
  shows "\<exists>data data1 entries image_fields link_fields.
      get_basically_sanitized_sneaker_data db
        (AList.delete ''links'' (AList.delete ''image'' (AList.delete ''id'' sneaker))) = Inr data
    \<and> fix_date_and_year_in_sneaker_data data = Inr (data1, entries)
    \<and> sqlize_sneakers_images_fields (dict_get (AList.delete ''id'' sneaker) ''image'') = Inr image_fields
    \<and> sqlize_sneakers_links_fields
         (dict_get (AList.delete ''image'' (AList.delete ''id'' sneaker)) ''links'') = Inr link_fields
    \<and> t_sneakers (conn db') =
         t_sneakers (conn db) @ [dict_update (dict_update data1 image_fields) link_fields]"
  using assms unfolding insert_sneaker_def Let_def
  by (auto split: sum.splits if_splits prod.splits
      dest!: execute_insert_sneaker_row insert_360_images_sneakers)

lemma sqlize_fields_keys:
  "sqlize_fields prefix ks d = Inr fs \<Longrightarrow> k \<in> fst ` set fs \<Longrightarrow> \<exists>k0. k = prefix @ k0"
proof (induction ks arbitrary: fs)
  case Nil
  then show ?case by simp
next
  case (Cons k1 ks)
  from Cons.prems(1) obtain s others where others: "sqlize_fields prefix ks d = Inr others"
    and fs: "fs = (if s \<noteq> [] then (prefix @ k1, JStr s) # others else others)"
    by (auto split: sum.splits)
  show ?case
  proof (cases "k \<in> fst ` set others")
    case True
    with others show ?thesis by (rule Cons.IH)
  next
    case False
    with Cons.prems(2) fs have "k = prefix @ k1"
      by (auto split: if_splits)
    then show ?thesis by blast
  qed
qed

lemma dict_update_other:
  "k \<notin> fst ` set other \<Longrightarrow> map_of (dict_update d other) k = map_of d k"
  unfolding dict_update_def
proof (induction other arbitrary: d)
  case Nil
  then show ?case by simp
next
  case (Cons kv other)
  obtain k1 v1 where kv: "kv = (k1, v1)"
    by (cases kv)
  from Cons.prems have "k \<noteq> k1" "k \<notin> fst ` set other"
    by (auto simp add: kv)
  with Cons.IH [of "AList.update k1 v1 d"] show ?case
    by (simp add: kv update_conv')
qed

lemma nested_result:
  assumes "(case s of Inl e \<Rightarrow> Inl e
            | Inr x \<Rightarrow> (case h x of Inl e \<Rightarrow> Inl e
                        | Inr (rd, ry, en) \<Rightarrow> Inr (g rd ry, en))) = Inr (d1, entries)"
  obtains rd ry where "d1 = g rd ry"
  using assms by (auto split: sum.splits prod.splits)

lemma fix_date_other_key:
  assumes "fix_date_and_year_in_sneaker_data data = Inr (data1, entries)"
    and "k \<noteq> ''releaseDate''" and "k \<noteq> ''releaseYear''"
  shows "map_of data1 k = map_of data k"
  using assms(2,3) assms(1) [unfolded fix_date_and_year_in_sneaker_data_def Let_def]
  apply (elim nested_result)
  apply (simp add: update_conv' delete_conv' del: truthy.simps)
  done

lemma price_key_not_field:
  assumes "k = ''estimatedMarketValue'' \<or> k = ''retailPrice''"
  shows "k \<noteq> ''image_'' @ k0" and "k \<noteq> ''link_'' @ k0"
  using assms by auto

lemma insert_sneaker_stored_logs:
  assumes "insert_sneaker sneaker db = (None, db')"
  shows "\<exists>data data1 entries.
      get_basically_sanitized_sneaker_data db
        (AList.delete ''links'' (AList.delete ''image'' (AList.delete ''id'' sneaker))) = Inr data
    \<and> fix_date_and_year_in_sneaker_data data = Inr (data1, entries)
    \<and> logs db' = logs db @ entries"
  using assms unfolding insert_sneaker_def Let_def
  by (auto split: sum.splits if_splits prod.splits)

lemma date_key_not_field:
  assumes "k = ''releaseYear'' \<or> k = ''releaseDate''"
  shows "k \<noteq> ''image_'' @ k0" and "k \<noteq> ''link_'' @ k0"
  using assms by auto

text \<open>
  C4. For a record with a valid release date that is not the sentinel, and a release
  year that is absent or a non-negative integer: an absent or zero year is set to the
  year of the (possibly rewritten) date, and this is logged at level INFO; any other
  year below 99 is increased by 2000; when the resulting year differs from the year of
  the date, one entry is logged at level ERROR and nothing else happens: the
  reconciliation returns, and the record carries the resulting year and the date.
  The record is then stored with them: whenever \<^verbatim>\<open>insert_sneaker\<close> returns for a record
  that the sanitizer has turned into this one, the table has gained one row, this row
  has the resulting year and the date, and the log has gained exactly the entries of
  the reconciliation. The sanitizer passes on only positive years (\<open>sanitized_year\<close>),
  so every record that reaches the reconciliation meets the hypothesis on the year.
\<close>

theorem year_reconciliation:
  assumes rdk: "map_of data ''releaseDate'' = Some (JStr rd0)"
    and m: "match_date (strip rd0)" and ns: "strip rd0 \<noteq> ''0001-01-01''"
    and ry: "dict_get data ''releaseYear'' = JNull
             \<or> (\<exists>y. 0 \<le> y \<and> dict_get data ''releaseYear'' = JInt y)"
  defines "rd \<equiv> (if startswith (strip rd0) ''00'' then ''20'' @ drop 2 (strip rd0) else strip rd0)"
  defines "year \<equiv> int_of_digits (take 4 rd)"
  defines "ry' \<equiv> (case dict_get data ''releaseYear'' of
                     JInt y \<Rightarrow> if y = 0 then year else if y < 99 then y + 2000 else y
                   | _ \<Rightarrow> year)"
  defines "entries \<equiv>
             (if dict_get data ''releaseYear'' = JNull \<or> dict_get data ''releaseYear'' = JInt 0
              then [(INFO, Filling_release_year (dict_get data ''sku''))]
              else if ry' \<noteq> year
              then [(ERROR, Year_mismatch (dict_get data ''sku'') ry' rd)]
              else [])"
  shows "(\<exists>data'. fix_date_and_year_in_sneaker_data data = Inr (data', entries)
          \<and> map_of data' ''releaseYear'' = Some (JInt ry')
          \<and> map_of data' ''releaseDate'' = Some (JStr rd))
       \<and> (\<forall>sneaker db db'.
            get_basically_sanitized_sneaker_data db
              (AList.delete ''links'' (AList.delete ''image'' (AList.delete ''id'' sneaker))) = Inr data
            \<and> insert_sneaker sneaker db = (None, db')
            \<longrightarrow> (\<exists>row. t_sneakers (conn db') = t_sneakers (conn db) @ [row]
                    \<and> map_of row ''releaseYear'' = Some (JInt ry')
                    \<and> map_of row ''releaseDate'' = Some (JStr rd))
                \<and> logs db' = logs db @ entries)"
proof -
  have yr: "100 \<le> year"
    using match_date_year(2) [OF m] by (simp add: year_def rd_def)
  have returns: "\<exists>data'. fix_date_and_year_in_sneaker_data data = Inr (data', entries)
          \<and> map_of data' ''releaseYear'' = Some (JInt ry')
          \<and> map_of data' ''releaseDate'' = Some (JStr rd)"
  proof -
    from ry consider "dict_get data ''releaseYear'' = JNull \<or> dict_get data ''releaseYear'' = JInt 0"
      | y where "dict_get data ''releaseYear'' = JInt y" "0 < y"
      by force
    then show ?thesis
    proof cases
      case 1
      then have "ry' = year"
        by (auto simp add: ry'_def)
      then show ?thesis
        unfolding fix_date_valid(1) [OF rdk m ns 1] entries_def
        using 1 by (simp add: update_conv' rd_def [symmetric] year_def [symmetric])
    next
      case 2
      then have y: "ry' = (if y < 99 then y + 2000 else y)" and nz: "y \<noteq> 0"
        by (simp_all add: ry'_def)
      have "fix_date_and_year_in_sneaker_data data =
          Inr (AList.update ''releaseYear'' (JInt ry')
                 (AList.update ''releaseDate'' (JStr rd)
                   (AList.delete ''releaseYear'' (AList.delete ''releaseDate'' data))),
               if ry' \<noteq> year then [(ERROR, Year_mismatch (dict_get data ''sku'') ry' rd)] else [])"
        unfolding fix_date_valid(2) [OF rdk m ns 2(1) nz]
        using 2(2) by (simp add: y rd_def [symmetric] year_def [symmetric])
      then show ?thesis
        unfolding entries_def using 2 by (simp add: update_conv')
    qed
  qed
  have stored: "(\<exists>row. t_sneakers (conn db') = t_sneakers (conn db) @ [row]
                    \<and> map_of row ''releaseYear'' = Some (JInt ry')
                    \<and> map_of row ''releaseDate'' = Some (JStr rd))
                \<and> logs db' = logs db @ entries"
    if san: "get_basically_sanitized_sneaker_data db
              (AList.delete ''links'' (AList.delete ''image'' (AList.delete ''id'' sneaker))) = Inr data"
      and ins: "insert_sneaker sneaker db = (None, db')"
    for sneaker db db'
  proof -
    from returns obtain data' where
      fx: "fix_date_and_year_in_sneaker_data data = Inr (data', entries)"
      and y': "map_of data' ''releaseYear'' = Some (JInt ry')"
      and d': "map_of data' ''releaseDate'' = Some (JStr rd)"
      by (elim exE conjE)
    from insert_sneaker_stored [OF ins]
    obtain data0 data1 entries1 image_fields link_fields where
      san0: "get_basically_sanitized_sneaker_data db
         (AList.delete ''links'' (AList.delete ''image'' (AList.delete ''id'' sneaker))) = Inr data0"
      and fixd: "fix_date_and_year_in_sneaker_data data0 = Inr (data1, entries1)"
      and img: "sqlize_sneakers_images_fields (dict_get (AList.delete ''id'' sneaker) ''image'') = Inr image_fields"
      and lnk: "sqlize_sneakers_links_fields
           (dict_get (AList.delete ''image'' (AList.delete ''id'' sneaker)) ''links'') = Inr link_fields"
      and row: "t_sneakers (conn db') =
           t_sneakers (conn db) @ [dict_update (dict_update data1 image_fields) link_fields]"
      by (elim exE conjE)
    from insert_sneaker_stored_logs [OF ins]
    obtain data2 data3 entries3 where
      san2: "get_basically_sanitized_sneaker_data db
         (AList.delete ''links'' (AList.delete ''image'' (AList.delete ''id'' sneaker))) = Inr data2"
      and fix2: "fix_date_and_year_in_sneaker_data data2 = Inr (data3, entries3)"
      and lg: "logs db' = logs db @ entries3"
      by (elim exE conjE)
    have "data0 = data" "data2 = data"
      using san san0 san2 by simp_all
    then have same: "data1 = data'" "entries3 = entries"
      using fx fixd fix2 by simp_all
    let ?row = "dict_update (dict_update data' image_fields) link_fields"
    have key: "map_of ?row k = map_of data' k" if k: "k = ''releaseYear'' \<or> k = ''releaseDate''" for k
    proof -
      have "k \<notin> fst ` set image_fields"
        using sqlize_fields_keys [OF img [unfolded sqlize_sneakers_images_fields_def]]
          date_key_not_field(1) [OF k] by blast
      moreover have "k \<notin> fst ` set link_fields"
        using sqlize_fields_keys [OF lnk [unfolded sqlize_sneakers_links_fields_def]]
          date_key_not_field(2) [OF k] by blast
      ultimately show ?thesis
        by (simp add: dict_update_other)
    qed
    have "t_sneakers (conn db') = t_sneakers (conn db) @ [?row]"
      using row same(1) by simp
    moreover have "map_of ?row ''releaseYear'' = Some (JInt ry')"
      using key [of "''releaseYear''"] y' by simp
    moreover have "map_of ?row ''releaseDate'' = Some (JStr rd)"
      using key [of "''releaseDate''"] d' by simp
    moreover have "logs db' = logs db @ entries"
      using lg same(2) by simp
    ultimately show ?thesis
      by blast
  qed
  from returns stored show ?thesis
    by blast
qed

text \<open>
  Year 15 with date \<^verbatim>\<open>2015-03-01\<close> is stored as 2015 and nothing is logged; year 2014
  with the same date is stored as 2014 and the mismatch is logged.
\<close>

theorem year_reconciliation_witness:
  "(\<exists>row. t_sneakers (conn (snd (insert_sneaker (example_record_of_year 15) example_database))) = [row]
       \<and> map_of row ''releaseYear'' = Some (JInt 2015)
       \<and> map_of row ''releaseDate'' = Some (JStr ''2015-03-01''))
   \<and> logs (snd (insert_sneaker (example_record_of_year 15) example_database)) = []
   \<and> (\<exists>row. t_sneakers (conn (snd (insert_sneaker (example_record_of_year 2014) example_database))) = [row]
       \<and> map_of row ''releaseYear'' = Some (JInt 2014)
       \<and> map_of row ''releaseDate'' = Some (JStr ''2015-03-01''))
   \<and> logs (snd (insert_sneaker (example_record_of_year 2014) example_database))
       = [(ERROR, Year_mismatch (JStr ''A1'') 2014 ''2015-03-01'')]"
proof -
  let ?d1 = "[(''brand'', JStr ''NIKE''), (''gender'', JStr ''MEN''),
      (''estimatedMarketValue'', JInt 120), (''releaseYear'', JInt 15),
      (''story'', JStr []), (''colorway'', JStr ''Red''),
      (''silhouette'', JStr ''Air''), (''sku'', JStr ''A1''),
      (''retailPrice'', JInt 100), (''name'', JStr ''Air One''),
      (''releaseDate'', JStr ''2015-03-01'')]"
  let ?d2 = "[(''brand'', JStr ''NIKE''), (''gender'', JStr ''MEN''),
      (''estimatedMarketValue'', JInt 120), (''releaseYear'', JInt 2014),
      (''story'', JStr []), (''colorway'', JStr ''Red''),
      (''silhouette'', JStr ''Air''), (''sku'', JStr ''A1''),
      (''retailPrice'', JInt 100), (''name'', JStr ''Air One''),
      (''releaseDate'', JStr ''2015-03-01'')]"
  let ?r1 = "insert_sneaker (example_record_of_year 15) example_database"
  let ?r2 = "insert_sneaker (example_record_of_year 2014) example_database"
  have s: "strip ''2015-03-01'' = ''2015-03-01''" by code_simp
  have m: "match_date (strip ''2015-03-01'')" by code_simp
  have ns: "strip ''2015-03-01'' \<noteq> ''0001-01-01''" by code_simp
  have z: "\<not> startswith ''2015-03-01'' ''00''" by code_simp
  have yr: "int_of_digits (take 4 ''2015-03-01'') = 2015" by code_simp
  have r1: "map_of ?d1 ''releaseDate'' = Some (JStr ''2015-03-01'')" by code_simp
  have r2: "map_of ?d2 ''releaseDate'' = Some (JStr ''2015-03-01'')" by code_simp
  have y1: "dict_get ?d1 ''releaseYear'' = JInt 15" by code_simp
  have y2: "dict_get ?d2 ''releaseYear'' = JInt 2014" by code_simp
  have k1: "dict_get ?d1 ''sku'' = JStr ''A1''" by code_simp
  have k2: "dict_get ?d2 ''sku'' = JStr ''A1''" by code_simp
  have h1: "dict_get ?d1 ''releaseYear'' = JNull \<or> (\<exists>y. 0 \<le> y \<and> dict_get ?d1 ''releaseYear'' = JInt y)"
    unfolding y1 by simp
  have h2: "dict_get ?d2 ''releaseYear'' = JNull \<or> (\<exists>y. 0 \<le> y \<and> dict_get ?d2 ''releaseYear'' = JInt y)"
    unfolding y2 by simp
  have san1: "get_basically_sanitized_sneaker_data example_database
      (AList.delete ''links'' (AList.delete ''image'' (AList.delete ''id'' (example_record_of_year 15))))
      = Inr ?d1"
    by code_simp
  have san2: "get_basically_sanitized_sneaker_data example_database
      (AList.delete ''links'' (AList.delete ''image'' (AList.delete ''id'' (example_record_of_year 2014))))
      = Inr ?d2"
    by code_simp
  have "fst ?r1 = None" "fst ?r2 = None"
    by code_simp+
  then have ins: "?r1 = (None, snd ?r1)" "?r2 = (None, snd ?r2)"
    by (simp_all add: prod_eq_iff)
  have e: "t_sneakers (conn example_database) = []" "logs example_database = []"
    by code_simp+
  from year_reconciliation [OF r1 m ns h1, THEN conjunct2, rule_format, OF conjI [OF san1 ins(1)]]
    year_reconciliation [OF r2 m ns h2, THEN conjunct2, rule_format, OF conjI [OF san2 ins(2)]]
  show ?thesis
    unfolding y1 y2 k1 k2 s e using z yr by simp
qed

text \<open>
  C7. For a record that is stored, the integer fields \<^verbatim>\<open>estimatedMarketValue\<close> and
  \<^verbatim>\<open>retailPrice\<close> are in the stored row with their value exactly when that value is
  greater than 0; for 0 or a negative value the row has no such field.
\<close>

theorem nonpositive_prices_dropped:
  assumes dist: "distinct (map fst sneaker)"
    and k: "k = ''estimatedMarketValue'' \<or> k = ''retailPrice''"
    and look: "map_of sneaker k = Some (JInt v)"
    and ins: "insert_sneaker sneaker db = (None, db')"
  shows "\<exists>row. t_sneakers (conn db') = t_sneakers (conn db) @ [row]
           \<and> map_of row k = (if 0 < v then Some (JInt v) else None)"
proof -
  let ?sneaker3 = "AList.delete ''links'' (AList.delete ''image'' (AList.delete ''id'' sneaker))"
  from insert_sneaker_stored [OF ins]
  obtain data data1 entries image_fields link_fields where
    san: "get_basically_sanitized_sneaker_data db ?sneaker3 = Inr data"
    and fixd: "fix_date_and_year_in_sneaker_data data = Inr (data1, entries)"
    and img: "sqlize_sneakers_images_fields (dict_get (AList.delete ''id'' sneaker) ''image'') = Inr image_fields"
    and lnk: "sqlize_sneakers_links_fields
         (dict_get (AList.delete ''image'' (AList.delete ''id'' sneaker)) ''links'') = Inr link_fields"
    and row: "t_sneakers (conn db') =
         t_sneakers (conn db) @ [dict_update (dict_update data1 image_fields) link_fields]"
    by (elim exE conjE)
  have kk: "k \<in> set [''releaseYear'', ''estimatedMarketValue'', ''retailPrice'']"
    using k by auto
  have kne: "k \<noteq> ''id''" "k \<noteq> ''image''" "k \<noteq> ''links''" "k \<noteq> ''releaseDate''" "k \<noteq> ''releaseYear''"
    using k by auto
  have dist3: "distinct (map fst ?sneaker3)"
    using dist by (simp add: distinct_delete)
  have look3: "map_of ?sneaker3 k = Some (JInt v)"
    using look kne by (simp add: delete_conv')
  from sanitize_items_int_key [OF san [unfolded get_basically_sanitized_sneaker_data_def] dist3 kk look3]
  have d: "map_of data k = (if 0 < v then Some (JInt v) else None)"
    by simp
  have d1: "map_of data1 k = map_of data k"
    using fixd kne(4,5) by (rule fix_date_other_key)
  have "k \<notin> fst ` set image_fields"
    using sqlize_fields_keys [OF img [unfolded sqlize_sneakers_images_fields_def]]
      price_key_not_field(1) [OF k] by blast
  moreover have "k \<notin> fst ` set link_fields"
    using sqlize_fields_keys [OF lnk [unfolded sqlize_sneakers_links_fields_def]]
      price_key_not_field(2) [OF k] by blast
  ultimately have "map_of (dict_update (dict_update data1 image_fields) link_fields) k = map_of data1 k"
    by (simp add: dict_update_other)
  with d d1 row show ?thesis
    by simp
qed

text \<open>A record with market value -5 and retail price 0 is stored without both fields.\<close>

theorem nonpositive_prices_dropped_witness:
  "(\<exists>row. t_sneakers (conn (snd (insert_sneaker
              (example_record ''B2'' ''Nike'' ''mens'' (- 5) 0) example_database))) = [row]
      \<and> map_of row ''estimatedMarketValue'' = None)
   \<and> (\<exists>row. t_sneakers (conn (snd (insert_sneaker
              (example_record ''B2'' ''Nike'' ''mens'' (- 5) 0) example_database))) = [row]
      \<and> map_of row ''retailPrice'' = None)"
proof -
  let ?s = "example_record ''B2'' ''Nike'' ''mens'' (- 5) 0"
  let ?r = "insert_sneaker ?s example_database"
  have "fst ?r = None"
    by code_simp
  then have ins: "?r = (None, snd ?r)"
    by (simp add: prod_eq_iff)
  have dist: "distinct (map fst ?s)" by code_simp
  have l1: "map_of ?s ''estimatedMarketValue'' = Some (JInt (- 5))" by code_simp
  have l2: "map_of ?s ''retailPrice'' = Some (JInt 0)" by code_simp
  have e: "t_sneakers (conn example_database) = []" by code_simp
  from nonpositive_prices_dropped [OF dist _ l1 ins] nonpositive_prices_dropped [OF dist _ l2 ins]
  show ?thesis
    unfolding e by simp
qed

text \<open>
  C6. A record of unknown gender, and one of unknown brand, at the failing inputs: the
  record is not stored and the database is as before, but the exception is the
  \<^verbatim>\<open>TypeError\<close> that Python raises for \<^verbatim>\<open>raise "API gave us an unknown gender"\<close>, the
  same for both, and not an error that tells an unknown gender from an unknown brand.
\<close>

theorem unknown_gender_and_brand_raise_TypeError:
  "insert_sneaker (example_record ''B2'' ''Nike'' ''alien'' 120 100) example_database
     = (Some TypeError, example_database)
   \<and> insert_sneaker (example_record ''B2'' ''Acme'' ''mens'' 120 100) example_database
     = (Some TypeError, example_database)"
  by code_simp

section \<open>The page loop\<close>

lemma processed_pages_append:
  "processed_pages (xs @ ys) = processed_pages xs @ processed_pages ys"
  by (induction xs rule: processed_pages.induct) simp_all

lemma insert_sneakers_frame:
  "insert_sneakers rs db = (exc, db') \<Longrightarrow>
     durable db' = durable db \<and> page_limit db' = page_limit db
     \<and> (\<exists>entries. logs db' = logs db @ entries \<and> processed_pages entries = [])
     \<and> (\<exists>rows. t_sneakers (conn db') = t_sneakers (conn db) @ rows)"
proof (induction rs arbitrary: db)
  case Nil
  then show ?case by simp
next
  case (Cons r rs)
  obtain e1 db1 where r: "insert_sneaker r db = (e1, db1)"
    by (cases "insert_sneaker r db")
  note f1 = insert_sneaker_frame [OF r]
  show ?case
  proof (cases e1)
    case None
    with Cons.prems r have "insert_sneakers rs db1 = (exc, db')"
      by simp
    from Cons.IH [OF this] f1 show ?thesis
      by (auto simp add: processed_pages_append)
  next
    case (Some e)
    with Cons.prems r have "db' = db1"
      by simp
    with f1 show ?thesis
      by simp
  qed
qed

lemma insert_sneakers_ok_rows:
  "insert_sneakers rs db = (None, db') \<Longrightarrow>
     length (t_sneakers (conn db')) = length (t_sneakers (conn db)) + length rs"
proof (induction rs arbitrary: db)
  case Nil
  then show ?case by simp
next
  case (Cons r rs)
  obtain e1 db1 where r: "insert_sneaker r db = (e1, db1)"
    by (cases "insert_sneaker r db")
  with Cons.prems have e1: "e1 = None" and rest: "insert_sneakers rs db1 = (None, db')"
    by (auto split: option.splits)
  from insert_sneaker_stored [OF r [unfolded e1]]
  have "length (t_sneakers (conn db1)) = length (t_sneakers (conn db)) + 1"
    by auto
  with Cons.IH [OF rest] show ?case
    by simp
qed

lemma insert_sneakers_failure:
  "insert_sneakers rs db = (Some exc, db') \<Longrightarrow>
     \<exists>pre bad post db1. rs = pre @ bad # post \<and> insert_sneakers pre db = (None, db1)
        \<and> insert_sneaker bad db1 = (Some exc, db')"
proof (induction rs arbitrary: db)
  case Nil
  then show ?case by simp
next
  case (Cons r rs)
  obtain e1 db1 where r: "insert_sneaker r db = (e1, db1)"
    by (cases "insert_sneaker r db")
  show ?case
  proof (cases e1)
    case None
    with Cons.prems r have "insert_sneakers rs db1 = (Some exc, db')"
      by simp
    from Cons.IH [OF this] obtain pre bad post db2 where
      "rs = pre @ bad # post" "insert_sneakers pre db1 = (None, db2)"
      "insert_sneaker bad db2 = (Some exc, db')"
      by blast
    then have "r # rs = (r # pre) @ bad # post \<and> insert_sneakers (r # pre) db = (None, db2)
        \<and> insert_sneaker bad db2 = (Some exc, db')"
      using r None by simp
    then show ?thesis
      by blast
  next
    case (Some e)
    with Cons.prems r have "e = exc" "db1 = db'"
      by simp_all
    with r Some have "r # rs = [] @ r # rs \<and> insert_sneakers [] db = (None, db)
        \<and> insert_sneaker r db = (Some exc, db')"
      by simp
    then show ?thesis
      by blast
  qed
qed



text \<open>The three ways out of \<^verbatim>\<open>load_sneakers_page\<close>.\<close>

lemma load_sneakers_page_cases:
  assumes "load_sneakers_page a page db = (exc, db')"
  obtains (fetch_failed) e where "api_sneakers a (page_limit db) page = Inl e" "exc = Some e"
      "db' = note_call (page_limit db) page db"
    | (record_failed) data e where "api_sneakers a (page_limit db) page = Inr data" "exc = Some e"
      "insert_sneakers (results data) (note_call (page_limit db) page db) = (Some e, db')"
    | (committed) data db1 where "api_sneakers a (page_limit db) page = Inr data" "exc = None"
      "insert_sneakers (results data) (note_call (page_limit db) page db) = (None, db1)"
      "db' = commit db1"
  using assms unfolding load_sneakers_page_def Let_def
  by (auto split: sum.splits prod.splits option.splits)

lemma note_call_frame:
  "page_limit (note_call l p db) = page_limit db" "logs (note_call l p db) = logs db"
  "conn (note_call l p db) = conn db" "durable (note_call l p db) = durable db"
  "api_calls (note_call l p db) = api_calls db @ [(l, p)]"
  by (simp_all add: note_call_def)

lemma load_sneakers_page_frame:
  assumes "load_sneakers_page a page db = (exc, db')"
  shows "page_limit db' = page_limit db
     \<and> (\<exists>entries. logs db' = logs db @ entries \<and> processed_pages entries = [])
     \<and> (\<exists>rows. t_sneakers (conn db') = t_sneakers (conn db) @ rows)"
  using assms
proof (cases rule: load_sneakers_page_cases)
  case (fetch_failed e)
  then show ?thesis
    by (simp add: note_call_frame)
next
  case (record_failed data e)
  from insert_sneakers_frame [OF record_failed(3)] show ?thesis
    by (simp add: note_call_frame)
next
  case (committed data db1)
  from insert_sneakers_frame [OF committed(3)] show ?thesis
    by (simp add: note_call_frame committed(4) commit_def)
qed


text \<open>A page that succeeds commits every row that is in the table, its own or not.\<close>

lemma load_sneakers_page_commits:
  assumes "load_sneakers_page a page db = (None, db')"
  shows "durable db' = conn db' \<and> (\<exists>rows. t_sneakers (conn db') = t_sneakers (conn db) @ rows)"
  using assms
proof (cases rule: load_sneakers_page_cases)
  case (committed data db1)
  from insert_sneakers_frame [OF committed(3)] show ?thesis
    by (simp add: note_call_frame committed(4) commit_def)
qed simp_all

lemma load_pages_frame:
  "page_limit (load_pages a l pages db) = page_limit db
   \<and> processed_pages (logs (load_pages a l pages db)) = processed_pages (logs db) @ pages
   \<and> (\<exists>rows. t_sneakers (conn (load_pages a l pages db)) = t_sneakers (conn db) @ rows)"
proof (induction pages arbitrary: db)
  case Nil
  show ?case by simp
next
  case (Cons page pages)
  let ?db0 = "logging INFO (Processing_page page l) db"
  obtain e1 db1 where r: "load_sneakers_page a page ?db0 = (e1, db1)"
    by (cases "load_sneakers_page a page ?db0")
  from load_sneakers_page_frame [OF r]
  have f1: "page_limit db1 = page_limit db"
    "processed_pages (logs db1) = processed_pages (logs db) @ [page]"
    "\<exists>rows. t_sneakers (conn db1) = t_sneakers (conn db) @ rows"
    by (auto simp add: logging_def processed_pages_append)
  show ?case
  proof (cases e1)
    case None
    then have "load_pages a l (page # pages) db = load_pages a l pages db1"
      using r by simp
    with Cons.IH [of db1] f1 show ?thesis
      by auto
  next
    case (Some e)
    let ?db2 = "logging ERROR (Page_error page e) db1"
    have "load_pages a l (page # pages) db = load_pages a l pages ?db2"
      using r Some by simp
    moreover have "page_limit ?db2 = page_limit db"
      "processed_pages (logs ?db2) = processed_pages (logs db) @ [page]"
      "\<exists>rows. t_sneakers (conn ?db2) = t_sneakers (conn db) @ rows"
      using f1 by (auto simp add: logging_def processed_pages_append)
    ultimately show ?thesis
      using Cons.IH [of ?db2] by auto
  qed
qed


text \<open>The loop does to each page of its list what the specification says of a page.\<close>

lemma load_pages_spec:
  "load_pages a l pages db = foldl (process_page_spec a l) db pages"
proof (induction pages arbitrary: db)
  case Nil
  show ?case by simp
next
  case (Cons page pages)
  let ?db0 = "logging INFO (Processing_page page l) db"
  have l0: "page_limit ?db0 = page_limit db"
    by (simp add: logging_def)
  have "(case load_sneakers_page a page ?db0 of
           (None, db') \<Rightarrow> db'
         | (Some exc, db') \<Rightarrow> logging ERROR (Page_error page exc) db')
        = process_page_spec a l db page"
    unfolding load_sneakers_page_def process_page_spec_def Let_def l0
    by (simp split: sum.splits prod.splits option.splits)
  moreover have "load_pages a l (page # pages) db
      = load_pages a l pages
          (case load_sneakers_page a page ?db0 of
             (None, db') \<Rightarrow> db'
           | (Some exc, db') \<Rightarrow> logging ERROR (Page_error page exc) db')"
    by (simp split: prod.splits option.splits)
  ultimately show ?case
    by (simp only: Cons.IH foldl_Cons)
qed

lemma load_pages_append:
  "load_pages a l (xs @ ys) db = load_pages a l ys (load_pages a l xs db)"
  by (simp only: load_pages_spec foldl_append)

text \<open>What the last two steps of the run write to the file: the rows of the table.\<close>

lemma saved_rows:
  "map_option t_sneakers (saved (savedb (load_fts db))) = Some (t_sneakers (conn db))"
  by (simp add: savedb_def load_fts_def logging_def commit_def Let_def)

text \<open>A run that ends normally has saved what the load of the pages has left.\<close>

lemma process_saves_the_load:
  assumes "process a db = (None, db')"
  obtains last_page_num db2 where
    "db' = savedb (load_fts (load_pages a last_page_num (page_range last_page_num) db2))"
  using assms unfolding process_def load_sneakers_def load_sneakers_safely_def Let_def
  by (auto split: prod.splits option.splits sum.splits)

text \<open>
  C2, as stated: none of the records of a failed page appear in the final store. The
  first record of the page is inserted before the second one raises; nothing rolls the
  insert back, the commit of \<^verbatim>\<open>load_fts\<close> makes it durable, and the saved file holds it.
\<close>

theorem failed_page_rows_reach_the_store:
  "fst (process failing_api init_database) = None
   \<and> (ERROR, Page_error 0 TypeError) \<in> set (logs (snd (process failing_api init_database)))
   \<and> map_option (\<lambda>t. map (\<lambda>row. dict_get row ''sku'') (t_sneakers t))
        (saved (snd (process failing_api init_database))) = Some [JStr ''A1'']"
  by code_simp

text \<open>
  C2, amended. When the processing of a page raises, the sequential load logs the page
  number and the exception at level ERROR and goes on with the remaining pages, and
  nothing has been committed for that page. But the page is not rolled back: either
  the fetch itself failed and the tables are untouched, or the records before the
  failing one have each added their row, the failing record left the table at least as
  it was, and every row that is there after the failed page is still there when the
  load ends. Any later page that succeeds commits these rows with its own; and
  wherever the failed page stands among the pages of the load, the rows it has left
  are in the file that \<^verbatim>\<open>load_fts\<close> and \<^verbatim>\<open>savedb\<close> write after the load, which is the
  final store of the run (\<open>process_saves_the_load\<close>).
\<close>

theorem failed_page_is_logged_and_not_rolled_back:
  assumes page: "load_sneakers_page a page (logging INFO (Processing_page page last_page_num) db)
                 = (Some exc, db')"
  shows "load_pages a last_page_num (page # pages) db
           = load_pages a last_page_num pages (logging ERROR (Page_error page exc) db')
       \<and> durable db' = durable db
       \<and> (api_sneakers a (page_limit db) page = Inl exc \<and> conn db' = conn db
          \<or> (\<exists>data pre bad post db1.
                api_sneakers a (page_limit db) page = Inr data
              \<and> results data = pre @ bad # post
              \<and> insert_sneakers pre
                   (note_call (page_limit db) page
                      (logging INFO (Processing_page page last_page_num) db)) = (None, db1)
              \<and> length (t_sneakers (conn db1)) = length (t_sneakers (conn db)) + length pre
              \<and> insert_sneaker bad db1 = (Some exc, db')
              \<and> (\<exists>rows. t_sneakers (conn db') = t_sneakers (conn db1) @ rows)))
       \<and> (\<exists>rows. t_sneakers (conn (load_pages a last_page_num (page # pages) db))
                   = t_sneakers (conn db') @ rows)
       \<and> (\<forall>later d0 d.
             (\<exists>rows. t_sneakers (conn d0) = t_sneakers (conn db') @ rows)
             \<and> load_sneakers_page a later d0 = (None, d)
             \<longrightarrow> (\<exists>rows. t_sneakers (durable d) = t_sneakers (conn db') @ rows))
       \<and> (\<forall>before s.
             load_pages a last_page_num before s = db
             \<longrightarrow> (\<exists>rows. map_option t_sneakers
                            (saved (savedb (load_fts
                               (load_pages a last_page_num (before @ page # pages) s))))
                          = Some (t_sneakers (conn db') @ rows)))"
proof -
  let ?db0 = "logging INFO (Processing_page page last_page_num) db"
  let ?dbc = "note_call (page_limit db) page ?db0"
  have db0: "page_limit ?db0 = page_limit db" "conn ?db0 = conn db" "durable ?db0 = durable db"
    by (simp_all add: logging_def)
  have 1: "load_pages a last_page_num (page # pages) db
           = load_pages a last_page_num pages (logging ERROR (Page_error page exc) db')"
    using page by simp
  have 4: "\<exists>rows. t_sneakers (conn (load_pages a last_page_num (page # pages) db))
                   = t_sneakers (conn db') @ rows"
    using load_pages_frame [of a last_page_num pages "logging ERROR (Page_error page exc) db'"]
    unfolding 1 by (simp add: logging_def)
  have 23: "durable db' = durable db
       \<and> (api_sneakers a (page_limit db) page = Inl exc \<and> conn db' = conn db
          \<or> (\<exists>data pre bad post db1.
                api_sneakers a (page_limit db) page = Inr data
              \<and> results data = pre @ bad # post
              \<and> insert_sneakers pre ?dbc = (None, db1)
              \<and> length (t_sneakers (conn db1)) = length (t_sneakers (conn db)) + length pre
              \<and> insert_sneaker bad db1 = (Some exc, db')
              \<and> (\<exists>rows. t_sneakers (conn db') = t_sneakers (conn db1) @ rows)))"
    using page
  proof (cases rule: load_sneakers_page_cases)
    case (fetch_failed e)
    then show ?thesis
      by (simp add: db0 note_call_frame)
  next
    case (record_failed data e)
    then have ins: "insert_sneakers (results data) ?dbc = (Some exc, db')"
      and api: "api_sneakers a (page_limit db) page = Inr data"
      by (simp_all add: db0)
    from insert_sneakers_failure [OF ins] obtain pre bad post db1 where
      split: "results data = pre @ bad # post"
      and pre: "insert_sneakers pre ?dbc = (None, db1)"
      and bad: "insert_sneaker bad db1 = (Some exc, db')"
      by blast
    have len: "length (t_sneakers (conn db1)) = length (t_sneakers (conn db)) + length pre"
      using insert_sneakers_ok_rows [OF pre] by (simp add: db0 note_call_frame)
    have rows: "\<exists>rows. t_sneakers (conn db') = t_sneakers (conn db1) @ rows"
      using insert_sneaker_frame [OF bad] by simp
    have "durable db' = durable db"
      using insert_sneakers_frame [OF ins] by (simp add: db0 note_call_frame)
    moreover have "\<exists>data pre bad post db1.
                api_sneakers a (page_limit db) page = Inr data
              \<and> results data = pre @ bad # post
              \<and> insert_sneakers pre ?dbc = (None, db1)
              \<and> length (t_sneakers (conn db1)) = length (t_sneakers (conn db)) + length pre
              \<and> insert_sneaker bad db1 = (Some exc, db')
              \<and> (\<exists>rows. t_sneakers (conn db') = t_sneakers (conn db1) @ rows)"
      using api split pre len bad rows by blast
    ultimately show ?thesis
      by blast
  qed simp
  have 5: "\<forall>later d0 d.
             (\<exists>rows. t_sneakers (conn d0) = t_sneakers (conn db') @ rows)
             \<and> load_sneakers_page a later d0 = (None, d)
             \<longrightarrow> (\<exists>rows. t_sneakers (durable d) = t_sneakers (conn db') @ rows)"
  proof (intro allI impI, elim conjE exE)
    fix later d0 d rows
    assume held: "t_sneakers (conn d0) = t_sneakers (conn db') @ rows"
      and ok: "load_sneakers_page a later d0 = (None, d)"
    from load_sneakers_page_commits [OF ok] obtain rows' where
      "durable d = conn d" "t_sneakers (conn d) = t_sneakers (conn d0) @ rows'"
      by (elim exE conjE)
    then have "t_sneakers (durable d) = t_sneakers (conn db') @ (rows @ rows')"
      using held by simp
    then show "\<exists>rows. t_sneakers (durable d) = t_sneakers (conn db') @ rows" ..
  qed
  have 6: "\<forall>before s.
             load_pages a last_page_num before s = db
             \<longrightarrow> (\<exists>rows. map_option t_sneakers
                            (saved (savedb (load_fts
                               (load_pages a last_page_num (before @ page # pages) s))))
                          = Some (t_sneakers (conn db') @ rows))"
  proof (intro allI impI)
    fix before s
    assume "load_pages a last_page_num before s = db"
    then have "load_pages a last_page_num (before @ page # pages) s
        = load_pages a last_page_num (page # pages) db"
      by (simp only: load_pages_append)
    then show "\<exists>rows. map_option t_sneakers
                            (saved (savedb (load_fts
                               (load_pages a last_page_num (before @ page # pages) s))))
                          = Some (t_sneakers (conn db') @ rows)"
      using 4 by (simp only: saved_rows) simp
  qed
  note 2 = 23 [THEN conjunct1] and 3 = 23 [THEN conjunct2]
  show ?thesis
    by (intro conjI) (rule 1 2 3 4 5 6)+
qed

text \<open>
  The page of \<open>failing_api\<close>: logged, not committed, and the row of \<^verbatim>\<open>A1\<close> stays and is
  in the file.
\<close>

theorem failed_page_is_logged_and_not_rolled_back_witness:
  "load_pages failing_api 0 [0] example_database
     = logging ERROR (Page_error 0 TypeError)
         (snd (load_sneakers_page failing_api 0 (logging INFO (Processing_page 0 0) example_database)))
   \<and> durable (snd (load_sneakers_page failing_api 0
         (logging INFO (Processing_page 0 0) example_database))) = durable example_database
   \<and> map (\<lambda>row. dict_get row ''sku'')
         (t_sneakers (conn (snd (load_sneakers_page failing_api 0
           (logging INFO (Processing_page 0 0) example_database))))) = [JStr ''A1'']
   \<and> (\<exists>rows. map_option t_sneakers
          (saved (savedb (load_fts (load_pages failing_api 0 [0] example_database))))
        = Some (t_sneakers (conn (snd (load_sneakers_page failing_api 0
             (logging INFO (Processing_page 0 0) example_database)))) @ rows))
   \<and> map_option (\<lambda>t. map (\<lambda>row. dict_get row ''sku'') (t_sneakers t))
        (saved (savedb (load_fts (load_pages failing_api 0 [0] example_database))))
      = Some [JStr ''A1'']"
proof -
  let ?r = "load_sneakers_page failing_api 0 (logging INFO (Processing_page 0 0) example_database)"
  have "fst ?r = Some TypeError"
    by code_simp
  then have "?r = (Some TypeError, snd ?r)"
    by (simp add: prod_eq_iff)
  note inst = failed_page_is_logged_and_not_rolled_back [OF this, of "[]"]
  from inst [THEN conjunct1]
  have 1: "load_pages failing_api 0 [0] example_database
          = logging ERROR (Page_error 0 TypeError) (snd ?r)"
    by simp
  note 2 = inst [THEN conjunct2, THEN conjunct1]
  note inst [THEN conjunct2, THEN conjunct2, THEN conjunct2, THEN conjunct2, THEN conjunct2]
  from this [rule_format, of "[]" example_database]
  have 3: "\<exists>rows. map_option t_sneakers
          (saved (savedb (load_fts (load_pages failing_api 0 [0] example_database))))
        = Some (t_sneakers (conn (snd ?r)) @ rows)"
    by simp
  have 4: "map (\<lambda>row. dict_get row ''sku'') (t_sneakers (conn (snd ?r))) = [JStr ''A1'']"
    by code_simp
  have 5: "map_option (\<lambda>t. map (\<lambda>row. dict_get row ''sku'') (t_sneakers t))
        (saved (savedb (load_fts (load_pages failing_api 0 [0] example_database))))
      = Some [JStr ''A1'']"
    by code_simp
  show ?thesis
    by (intro conjI) (rule 1 2 3 4 5)+
qed

section \<open>The last page\<close>










end
